theory Spec2Isabelle
  imports Main "HOL-Library.AList"
begin

section \<open>Data model\<close>

text \<open>
  A stored transaction record, an item of the transactions table. The attributes
  \<open>database-id\<close>, \<open>sequence-no\<close> and \<open>creation-date\<close> are always present;
  \<open>key\<close>, \<open>record\<close> and \<open>operations\<close> depend on the command. The creation date is
  kept as the millisecond timestamp that \<open>new Date(...)\<close> yields for it.
\<close>

record txn =
  database_id :: string
  sequence_no :: int
  command :: string
  item_key :: "string option"
  item_record :: "string option"
  item_operations :: "string option"
  creation_date :: int

text \<open>The wire shape that \<open>sendPayload\<close> projects every stored record to.\<close>

record wire_txn =
  seqNo :: int
  wire_command :: string
  wire_key :: "string option"
  wire_record :: "string option"
  wire_operations :: "string option"
  wire_dbId :: string

text \<open>
  The per-connection state of one opened database, as \<open>openDatabase\<close> creates it.
\<close>

record database =
  bundleSeqNo :: int
  lastSeqNo :: int
  transactionLogSize :: int
  init :: bool

text \<open>
  The payload object that \<open>push\<close> and the fan-out assemble for an
  \<open>ApplyTransactions\<close> message. A property that the source leaves unset is \<open>None\<close>.
\<close>

record payload =
  route :: string
  dbId :: string
  dbNameHash :: "string option"
  dbKey :: "string option"
  payload_bundleSeqNo :: "int option"
  payload_bundle :: "string option"
  transactionLog :: "wire_txn list option"

text \<open>
  What is written to a socket: the JSON rendering of one of three objects. An
  \<open>ApplyTransactions\<close> message is the payload, spread, together with the
  \<open>buildBundle\<close> flag: \<open>True\<close> for \<open>buildBundle: true\<close>, \<open>False\<close> when the property is
  absent.
\<close>

datatype json =
    ApplyTransactions payload (buildBundle: bool)
  | ReceiveRequestForSeed "string option"
  | ReceiveSeed string string

datatype status_code = Client_Already_Connected

type_synonym socket = nat

datatype event = Send socket json | Close socket status_code

definition TRANSACTION_SIZE_BUNDLE_TRIGGER :: int where
  "TRANSACTION_SIZE_BUNDLE_TRIGGER = 1024 * 50"

definition SECONDS_BEFORE_ROLLBACK_GAP_TRIGGERED :: int where
  "SECONDS_BEFORE_ROLLBACK_GAP_TRIGGERED = 1000 * 10"


section \<open>sendPayload\<close>

text \<open>\<open>Array.prototype.findIndex\<close>; the result \<open>-1\<close> is \<open>None\<close>.\<close>

fun findIndex :: "('a \<Rightarrow> bool) \<Rightarrow> 'a list \<Rightarrow> nat option" where
  "findIndex P [] = None"
| "findIndex P (x # xs) = (if P x then Some 0 else map_option Suc (findIndex P xs))"

definition project :: "txn \<Rightarrow> wire_txn" where
  "project transaction =
     \<lparr> seqNo = sequence_no transaction,
       wire_command = command transaction,
       wire_key = item_key transaction,
       wire_record = item_record transaction,
       wire_operations = item_operations transaction,
       wire_dbId = database_id transaction \<rparr>"

text \<open>
  \<open>Connection.sendPayload(payload, ddbTransactionLog, database)\<close>. The size estimator
  \<open>estimateSizeOfDdbItem\<close> is imported from a module outside this development and is a
  parameter. The function returns what it wrote to the socket and the database state it
  leaves behind.

  The gate compares with \<open>payload.bundleSeqNo + 1\<close>; when the payload has no
  \<open>bundleSeqNo\<close> this is \<open>undefined + 1 = NaN\<close>, and \<open>x !== NaN\<close> is true for every \<open>x\<close>.
\<close>

definition sendPayload ::
  "(txn \<Rightarrow> int) \<Rightarrow> socket \<Rightarrow> payload \<Rightarrow> txn list \<Rightarrow> database \<Rightarrow> event list \<times> database"
where
  "sendPayload estimateSizeOfDdbItem sock pl ddbTransactionLog db =
     (case findIndex (\<lambda>transaction. sequence_no transaction > lastSeqNo db) ddbTransactionLog of
        None \<Rightarrow> ([], db)
      | Some indexOfFirstTransactionToSend \<Rightarrow>
          (let sliced = drop indexOfFirstTransactionToSend ddbTransactionLog;
               sz = sum_list (map estimateSizeOfDdbItem sliced);
               wireLog = map project sliced
           in case wireLog of
                [] \<Rightarrow> ([], db)
              | first # _ \<Rightarrow>
                  if seqNo first \<noteq> lastSeqNo db + 1
                     \<and> (case payload_bundleSeqNo pl of
                            None \<Rightarrow> True
                          | Some b \<Rightarrow> seqNo first \<noteq> b + 1)
                  then ([], db)
                  else
                    (let sent =
                       (if transactionLogSize db + sz \<ge> TRANSACTION_SIZE_BUNDLE_TRIGGER
                        then ([Send sock (ApplyTransactions
                                 (pl\<lparr>transactionLog := Some wireLog\<rparr>) True)],
                              db\<lparr>transactionLogSize := 0\<rparr>)
                        else ([Send sock (ApplyTransactions
                                 (pl\<lparr>transactionLog := Some wireLog\<rparr>) False)],
                              db\<lparr>transactionLogSize := transactionLogSize db + sz\<rparr>))
                     in (fst sent,
                         (snd sent)\<lparr>lastSeqNo := seqNo (last wireLog), init := True\<rparr>))))"

text \<open>
  The entries of the buffer that survive the trim: everything from the first entry whose
  sequence number exceeds \<open>database.lastSeqNo\<close> on.
\<close>

definition surviving :: "txn list \<Rightarrow> database \<Rightarrow> txn list" where
  "surviving ddbTransactionLog db =
     dropWhile (\<lambda>t. \<not> sequence_no t > lastSeqNo db) ddbTransactionLog"

text \<open>The contiguity gate, on the first surviving entry.\<close>

definition contiguity_gate :: "payload \<Rightarrow> txn list \<Rightarrow> database \<Rightarrow> bool" where
  "contiguity_gate pl ddbTransactionLog db =
     (case surviving ddbTransactionLog db of
        [] \<Rightarrow> False
      | t # _ \<Rightarrow> sequence_no t = lastSeqNo db + 1
                \<or> payload_bundleSeqNo pl = Some (sequence_no t - 1))"


text \<open>Sample data: a stored insert, the payload of the fan-out, a database state.\<close>

definition sample_txn :: "int \<Rightarrow> int \<Rightarrow> txn" where
  "sample_txn n created =
     \<lparr> database_id = ''D'', sequence_no = n, command = ''Insert'',
       item_key = Some ''k'', item_record = Some ''r'', item_operations = None,
       creation_date = created \<rparr>"

definition sample_payload :: payload where
  "sample_payload =
     \<lparr> route = ''ApplyTransactions'', dbId = ''D'', dbNameHash = None, dbKey = None,
       payload_bundleSeqNo = None, payload_bundle = None, transactionLog = None \<rparr>"

definition sample_database :: "int \<Rightarrow> int \<Rightarrow> database" where
  "sample_database lastSeq logSize =
     \<lparr> bundleSeqNo = - 1, lastSeqNo = lastSeq, transactionLogSize = logSize, init = True \<rparr>"


section \<open>Properties of sendPayload\<close>

lemma findIndex_None: "findIndex P xs = None \<longleftrightarrow> dropWhile (\<lambda>x. \<not> P x) xs = []"
  by (induction xs) auto

lemma findIndex_Some: "findIndex P xs = Some i \<Longrightarrow> drop i xs = dropWhile (\<lambda>x. \<not> P x) xs"
  by (induction xs arbitrary: i) (auto split: if_splits)

lemma findIndex_Some_nonempty: "findIndex P xs = Some i \<Longrightarrow> dropWhile (\<lambda>x. \<not> P x) xs \<noteq> []"
  using findIndex_None [of P xs] by auto

lemma sendPayload_trimmed:
  "sendPayload est sock pl buf db =
     (case surviving buf db of
        [] \<Rightarrow> ([], db)
      | t # ts \<Rightarrow>
          if \<not> contiguity_gate pl buf db then ([], db)
          else if transactionLogSize db + sum_list (map est (t # ts)) \<ge> TRANSACTION_SIZE_BUNDLE_TRIGGER
          then ([Send sock (ApplyTransactions
                   (pl\<lparr>transactionLog := Some (map project (t # ts))\<rparr>) True)],
                db\<lparr>transactionLogSize := 0,
                   lastSeqNo := sequence_no (last (t # ts)), init := True\<rparr>)
          else ([Send sock (ApplyTransactions
                   (pl\<lparr>transactionLog := Some (map project (t # ts))\<rparr>) False)],
                db\<lparr>transactionLogSize := transactionLogSize db + sum_list (map est (t # ts)),
                   lastSeqNo := sequence_no (last (t # ts)), init := True\<rparr>))"
proof (cases "findIndex (\<lambda>transaction. sequence_no transaction > lastSeqNo db) buf")
  case None
  then have "surviving buf db = []"
    by (simp add: surviving_def findIndex_None)
  with None show ?thesis
    by (simp add: sendPayload_def)
next
  case (Some i)
  then have d: "drop i buf = surviving buf db"
    by (simp add: surviving_def findIndex_Some)
  from Some have "surviving buf db \<noteq> []"
    unfolding surviving_def by (rule findIndex_Some_nonempty)
  then obtain t ts where s: "surviving buf db = t # ts"
    by (cases "surviving buf db") auto
  have l: "seqNo (last (project t # map project ts)) = sequence_no (last (t # ts))"
  proof -
    have "last (map project (t # ts)) = project (last (t # ts))"
      by (rule last_map) simp
    then show ?thesis
      by (simp add: project_def del: last.simps)
  qed
  have p: "seqNo (project t) = sequence_no t"
    by (simp add: project_def)
  have g: "contiguity_gate pl buf db \<longleftrightarrow>
        \<not> (seqNo (project t) \<noteq> lastSeqNo db + 1
           \<and> (case payload_bundleSeqNo pl of None \<Rightarrow> True | Some b \<Rightarrow> seqNo (project t) \<noteq> b + 1))"
    unfolding p by (auto simp: contiguity_gate_def s split: option.splits)
  show ?thesis
    unfolding sendPayload_def Some option.case Let_def d s list.map list.case l
    by (simp add: g del: last.simps)
qed

text \<open>
  C1. After the trim to entries beyond \<open>database.lastSeqNo\<close>, a message is sent exactly
  when the first surviving entry's sequence number is \<open>database.lastSeqNo + 1\<close> or is
  \<open>payload.bundleSeqNo + 1\<close>, the latter being possible only for a payload that carries
  a \<open>bundleSeqNo\<close>; whenever the gate fails nothing is emitted and the database state is
  left as it was.
\<close>

theorem sendPayload_contiguity_gate:
  "(\<not> contiguity_gate pl buf db \<longrightarrow> sendPayload est sock pl buf db = ([], db))
   \<and> (fst (sendPayload est sock pl buf db) \<noteq> [] \<longrightarrow>
        (\<exists>t ts. surviving buf db = t # ts
           \<and> (sequence_no t = lastSeqNo db + 1
               \<or> (\<exists>b. payload_bundleSeqNo pl = Some b \<and> sequence_no t = b + 1))))
   \<and> (payload_bundleSeqNo pl = None \<and> fst (sendPayload est sock pl buf db) \<noteq> [] \<longrightarrow>
        (\<exists>t ts. surviving buf db = t # ts \<and> sequence_no t = lastSeqNo db + 1))"
  unfolding sendPayload_trimmed
  by (auto simp: contiguity_gate_def split: list.splits)

theorem sendPayload_contiguity_gate_witness:
  "\<not> contiguity_gate sample_payload [sample_txn 5 0] (sample_database 3 0)
   \<and> sendPayload (\<lambda>_. 10) 0 sample_payload [sample_txn 5 0] (sample_database 3 0)
       = ([], sample_database 3 0)
   \<and> fst (sendPayload (\<lambda>_. 10) 0 sample_payload [sample_txn 2 0, sample_txn 4 0]
            (sample_database 3 0)) \<noteq> []
   \<and> surviving [sample_txn 2 0, sample_txn 4 0] (sample_database 3 0) = [sample_txn 4 0]
   \<and> sequence_no (sample_txn 4 0) = lastSeqNo (sample_database 3 0) + 1"
proof -
  have n: "\<not> contiguity_gate sample_payload [sample_txn 5 0] (sample_database 3 0)"
    by (simp add: contiguity_gate_def surviving_def sample_txn_def sample_database_def
        sample_payload_def)
  have e: "fst (sendPayload (\<lambda>_. 10) 0 sample_payload [sample_txn 2 0, sample_txn 4 0]
            (sample_database 3 0)) \<noteq> []"
    by (simp add: sendPayload_def sample_txn_def sample_database_def sample_payload_def
        project_def TRANSACTION_SIZE_BUNDLE_TRIGGER_def)
  have s: "surviving [sample_txn 2 0, sample_txn 4 0] (sample_database 3 0) = [sample_txn 4 0]"
    by (simp add: surviving_def sample_txn_def sample_database_def)
  from n e s
    sendPayload_contiguity_gate [of sample_payload "[sample_txn 5 0]" "sample_database 3 0"
      "\<lambda>_. 10" 0]
    sendPayload_contiguity_gate [of sample_payload "[sample_txn 2 0, sample_txn 4 0]"
      "sample_database 3 0" "\<lambda>_. 10" 0]
  show ?thesis
    by (simp add: sample_payload_def)
qed

text \<open>
  C3. Every emission of \<open>sendPayload\<close> carries \<open>buildBundle = true\<close> exactly when
  \<open>database.transactionLogSize + size\<close> is at least \<open>50 * 1024\<close>, where \<open>size\<close> is the
  estimator summed over the surviving entries; in that case the counter is reset to 0,
  and otherwise the message carries no flag and the counter grows by \<open>size\<close>.
\<close>

theorem sendPayload_bundle_trigger:
  assumes "fst (sendPayload est sock pl buf db) \<noteq> []"
  shows "\<exists>m flag. fst (sendPayload est sock pl buf db) = [Send sock (ApplyTransactions m flag)]
           \<and> flag = (transactionLogSize db + sum_list (map est (surviving buf db)) \<ge> 50 * 1024)
           \<and> transactionLogSize (snd (sendPayload est sock pl buf db))
               = (if flag then 0
                  else transactionLogSize db + sum_list (map est (surviving buf db)))"
  using assms unfolding sendPayload_trimmed
  by (auto simp: TRANSACTION_SIZE_BUNDLE_TRIGGER_def split: list.splits if_splits)

theorem sendPayload_bundle_trigger_witness:
  "fst (sendPayload (\<lambda>_. 30000) 0 sample_payload [sample_txn 4 0, sample_txn 5 0]
          (sample_database 3 100)) \<noteq> []
   \<and> (\<exists>m. fst (sendPayload (\<lambda>_. 30000) 0 sample_payload [sample_txn 4 0, sample_txn 5 0]
          (sample_database 3 100)) = [Send 0 (ApplyTransactions m True)])
   \<and> transactionLogSize (snd (sendPayload (\<lambda>_. 30000) 0 sample_payload
          [sample_txn 4 0, sample_txn 5 0] (sample_database 3 100))) = 0"
proof -
  have e: "fst (sendPayload (\<lambda>_. 30000) 0 sample_payload [sample_txn 4 0, sample_txn 5 0]
          (sample_database 3 100)) \<noteq> []"
    by (simp add: sendPayload_def sample_txn_def sample_database_def sample_payload_def
        project_def TRANSACTION_SIZE_BUNDLE_TRIGGER_def)
  have s: "surviving [sample_txn 4 0, sample_txn 5 0] (sample_database 3 100)
             = [sample_txn 4 0, sample_txn 5 0]"
    by (simp add: surviving_def sample_txn_def sample_database_def)
  have t: "transactionLogSize (sample_database 3 100) = 100"
    by (simp add: sample_database_def)
  from sendPayload_bundle_trigger [OF e] e show ?thesis
    unfolding s t by auto
qed


section \<open>Connections and the registry\<close>

text \<open>
  A \<open>Connection\<close> object. Its \<open>id\<close> is the value \<open>uuidv4()\<close> returned in the
  constructor; \<open>requesterPublicKey\<close> is \<open>None\<close> while the property is undefined.
\<close>

record connection =
  userId :: string
  socket :: socket
  clientId :: string
  conn_id :: string
  databases :: "string \<rightharpoonup> database"
  keyValidated :: bool
  requesterPublicKey :: "string option"

definition new_Connection :: "string \<Rightarrow> socket \<Rightarrow> string \<Rightarrow> string \<Rightarrow> connection" where
  "new_Connection uid sock cid uuid =
     \<lparr> userId = uid, socket = sock, clientId = cid, conn_id = uuid,
       databases = Map.empty, keyValidated = False, requesterPublicKey = None \<rparr>"

definition openDatabase :: "connection \<Rightarrow> string \<Rightarrow> int option \<Rightarrow> int option \<Rightarrow> connection" where
  "openDatabase c databaseId bundleSeqNo_arg reopenAtSeqNo =
     c\<lparr>databases := (databases c)(databaseId \<mapsto>
         \<lparr> bundleSeqNo = (case bundleSeqNo_arg of
                            Some b \<Rightarrow> if b > 0 then b else - 1
                          | None \<Rightarrow> - 1),
           lastSeqNo = (case reopenAtSeqNo of Some n \<Rightarrow> n | None \<Rightarrow> 0),
           transactionLogSize = 0,
           init = (reopenAtSeqNo \<noteq> None) \<rparr>)\<rparr>"

definition validateKey :: "connection \<Rightarrow> connection" where
  "validateKey c = c\<lparr>keyValidated := True\<rparr>"

definition openSeedRequest :: "connection \<Rightarrow> string option \<Rightarrow> connection" where
  "openSeedRequest c pk = c\<lparr>requesterPublicKey := pk\<rparr>"

definition deleteSeedRequest :: "connection \<Rightarrow> connection" where
  "deleteSeedRequest c = c\<lparr>requesterPublicKey := None\<rparr>"

text \<open>\<open>Connection.sendSeedRequest\<close>, the per-connection broadcaster.\<close>

definition sendSeedRequest :: "connection \<Rightarrow> string option \<Rightarrow> event list" where
  "sendSeedRequest c pk =
     (if \<not> keyValidated c then []
      else [Send (socket c) (ReceiveRequestForSeed pk)])"

text \<open>
  \<open>Connection.sendSeed\<close>. The comparison is \<open>!==\<close> between the stored property and the
  argument, either of which may be undefined.
\<close>

definition sendSeed :: "connection \<Rightarrow> string \<Rightarrow> string option \<Rightarrow> string \<Rightarrow> event list" where
  "sendSeed c senderPublicKey pk encryptedSeed =
     (if requesterPublicKey c \<noteq> pk then []
      else [Send (socket c) (ReceiveSeed encryptedSeed senderPublicKey)])"

text \<open>
  The static state of \<open>Connections\<close>. Both properties are undefined (\<open>None\<close>) until the
  first \<open>register\<close>. An object is an association list in insertion order, which is the
  order \<open>Object.values\<close> enumerates (the keys are UUID strings).
\<close>

record registry =
  sockets :: "(string \<times> (string \<times> connection) list) list option"
  uniqueClients :: "(string \<rightharpoonup> bool) option"

definition empty_registry :: registry where
  "empty_registry = \<lparr> sockets = None, uniqueClients = None \<rparr>"

text \<open>\<open>Connections.sockets[userId]\<close>, with \<open>None\<close> when either lookup yields undefined.\<close>

definition user_sockets :: "registry \<Rightarrow> string \<Rightarrow> (string \<times> connection) list option" where
  "user_sockets r uid = (case sockets r of None \<Rightarrow> None | Some ss \<Rightarrow> map_of ss uid)"

text \<open>\<open>Object.values(Connections.sockets[userId])\<close>, empty when there is no such object.\<close>

definition connections_of :: "registry \<Rightarrow> string \<Rightarrow> connection list" where
  "connections_of r uid = (case user_sockets r uid of None \<Rightarrow> [] | Some m \<Rightarrow> map snd m)"

text \<open>
  \<open>clientId\<close> is a member of \<open>uniqueClients\<close>: the object has the key, with the value
  \<open>true\<close>.
\<close>

definition is_present :: "registry \<Rightarrow> string \<Rightarrow> bool" where
  "is_present r cid = (case uniqueClients r of None \<Rightarrow> False | Some u \<Rightarrow> u cid = Some True)"

text \<open>
  \<open>uniqueClients\<close> is a plain object, created as \<open>{}\<close>. Reading a property that the
  object does not own goes on to \<open>Object.prototype\<close>, so for each of the names below
  the lookup yields a function (for \<open>__proto__\<close> the prototype itself), which is truthy,
  whatever the object holds.
\<close>

definition Object_prototype_names :: "string list" where
  "Object_prototype_names =
     [''constructor'', ''__defineGetter__'', ''__defineSetter__'', ''hasOwnProperty'',
      ''__lookupGetter__'', ''__lookupSetter__'', ''isPrototypeOf'',
      ''propertyIsEnumerable'', ''toString'', ''valueOf'', ''__proto__'',
      ''toLocaleString'']"

definition inherited :: "string \<Rightarrow> bool" where
  "inherited name = (name \<in> set Object_prototype_names)"

text \<open>
  \<open>Connections.register(userId, socket, clientId)\<close>; \<open>uuid\<close> is what \<open>uuidv4()\<close> returns
  when the constructor runs. The result \<open>false\<close> is \<open>None\<close>. The test is
  \<open>!Connections.uniqueClients[clientId]\<close>, the truthiness of a lookup in a plain object;
  \<open>clientId\<close> is a string the client sends. The user ids and connection ids are
  minted by the server with \<open>uuidv4()\<close> and are none of the inherited names.
\<close>

definition Connections_register ::
  "registry \<Rightarrow> string \<Rightarrow> socket \<Rightarrow> string \<Rightarrow> string
     \<Rightarrow> connection option \<times> event list \<times> registry"
where
  "Connections_register r uid sock cid uuid =
     (let ss0 = (case sockets r of None \<Rightarrow> [] | Some ss \<Rightarrow> ss);
          ss1 = (case map_of ss0 uid of None \<Rightarrow> AList.update uid [] ss0 | Some _ \<Rightarrow> ss0);
          u0 = (case uniqueClients r of None \<Rightarrow> Map.empty | Some u \<Rightarrow> u)
      in if \<not> (u0 cid = Some True \<or> inherited cid)
         then
           (let c = new_Connection uid sock cid uuid;
                m = (case map_of ss1 uid of None \<Rightarrow> [] | Some m \<Rightarrow> m)
            in (Some c, [],
                \<lparr> sockets = Some (AList.update uid (AList.update (conn_id c) c m) ss1),
                  uniqueClients = Some (u0(cid \<mapsto> True)) \<rparr>))
         else (None, [Close sock Client_Already_Connected],
               \<lparr> sockets = Some ss1, uniqueClients = Some u0 \<rparr>))"

datatype js_error = TypeError

text \<open>
  \<open>Connections.close(connection)\<close>. Reading a property of undefined throws a
  \<open>TypeError\<close>; the first \<open>delete\<close> has then already taken effect when the second one
  throws.
\<close>

definition Connections_close :: "registry \<Rightarrow> connection \<Rightarrow> js_error option \<times> registry" where
  "Connections_close r c =
     (case sockets r of
        None \<Rightarrow> (Some TypeError, r)
      | Some ss \<Rightarrow>
          (case map_of ss (userId c) of
             None \<Rightarrow> (Some TypeError, r)
           | Some m \<Rightarrow>
               (let r1 = r\<lparr>sockets := Some (AList.update (userId c) (AList.delete (conn_id c) m) ss)\<rparr>
                in case uniqueClients r1 of
                     None \<Rightarrow> (Some TypeError, r1)
                   | Some u \<Rightarrow> (None, r1\<lparr>uniqueClients := Some (u(clientId c := None))\<rparr>))))"

text \<open>\<open>Connections.sendSeedRequest(userId, connectionId, requesterPublicKey)\<close>.\<close>

definition Connections_sendSeedRequest ::
  "registry \<Rightarrow> string \<Rightarrow> string \<Rightarrow> string option \<Rightarrow> event list \<times> registry"
where
  "Connections_sendSeedRequest r uid connectionId pk =
     (case sockets r of
        None \<Rightarrow> ([], r)
      | Some ss \<Rightarrow>
          (case map_of ss uid of
             None \<Rightarrow> ([], r)
           | Some m \<Rightarrow>
               (case map_of m connectionId of
                  None \<Rightarrow> ([], r)
                | Some conn \<Rightarrow>
                    (let m1 = AList.update connectionId (openSeedRequest conn pk) m;
                         r1 = r\<lparr>sockets := Some (AList.update uid m1 ss)\<rparr>
                     in (concat (map (\<lambda>connection. sendSeedRequest connection pk)
                                   (connections_of r1 uid)),
                         r1)))))"

text \<open>\<open>Connections.sendSeed(userId, senderPublicKey, requesterPublicKey, encryptedSeed)\<close>.\<close>

definition Connections_sendSeed ::
  "registry \<Rightarrow> string \<Rightarrow> string \<Rightarrow> string option \<Rightarrow> string \<Rightarrow> event list"
where
  "Connections_sendSeed r uid senderPublicKey pk encryptedSeed =
     (case sockets r of
        None \<Rightarrow> []
      | Some ss \<Rightarrow>
          (case map_of ss uid of
             None \<Rightarrow> []
           | Some m \<Rightarrow>
               concat (map (\<lambda>conn. sendSeed conn senderPublicKey pk encryptedSeed)
                         (map snd m))))"

text \<open>\<open>Connections.sockets[userId][connectionId]\<close>, \<open>None\<close> when a lookup yields undefined.\<close>

definition lookup_connection :: "registry \<Rightarrow> string \<Rightarrow> string \<Rightarrow> connection option" where
  "lookup_connection r uid connectionId =
     (case user_sockets r uid of None \<Rightarrow> None | Some m \<Rightarrow> map_of m connectionId)"


section \<open>Runs of the registry\<close>

text \<open>
  The two operations that change the registry, and runs of them from a given state.
  \<open>Close_op c\<close> is \<open>Connections.close(c)\<close> for a connection object \<open>c\<close>.
\<close>

datatype operation =
    Register string socket string string
  | Close_op connection

fun apply_op :: "registry \<Rightarrow> operation \<Rightarrow> registry" where
  "apply_op r (Register uid sock cid uuid) = snd (snd (Connections_register r uid sock cid uuid))"
| "apply_op r (Close_op c) = snd (Connections_close r c)"

fun run :: "registry \<Rightarrow> operation list \<Rightarrow> registry" where
  "run r [] = r"
| "run r (x # xs) = run (apply_op r x) xs"


fun admissible :: "registry \<Rightarrow> operation \<Rightarrow> bool" where
  "admissible r (Register uid sock cid uuid) = (lookup_connection r uid uuid = None)"
| "admissible r (Close_op c) = (lookup_connection r (userId c) (conn_id c) = Some c)"

fun admissible_run :: "registry \<Rightarrow> operation list \<Rightarrow> bool" where
  "admissible_run r [] = True"
| "admissible_run r (x # xs) = (admissible r x \<and> admissible_run (apply_op r x) xs)"

definition all_connections :: "registry \<Rightarrow> connection list" where
  "all_connections r =
     (case sockets r of None \<Rightarrow> [] | Some ss \<Rightarrow> concat (map (\<lambda>(uid, m). map snd m) ss))"

definition connections_with :: "registry \<Rightarrow> string \<Rightarrow> nat" where
  "connections_with r cid = length (filter (\<lambda>c. clientId c = cid) (all_connections r))"

definition registry_inv :: "registry \<Rightarrow> bool" where
  "registry_inv r =
     ((sockets r = None \<longleftrightarrow> uniqueClients r = None)
      \<and> (\<forall>ss. sockets r = Some ss \<longrightarrow> (\<forall>(uid, m) \<in> set ss. distinct (map fst m)))
      \<and> distinct (map clientId (all_connections r))
      \<and> (\<forall>cid. is_present r cid \<longleftrightarrow> cid \<in> clientId ` set (all_connections r)))"

definition stale_close_run :: "operation list" where
  "stale_close_run =
     [Register ''U'' 1 ''C'' ''id1'',
      Close_op (new_Connection ''U'' 1 ''C'' ''id1''),
      Register ''U'' 2 ''C'' ''id2'',
      Close_op (new_Connection ''U'' 1 ''C'' ''id1'')]"

definition live_run :: "operation list" where
  "live_run =
     [Register ''U'' 1 ''C'' ''id1'',
      Register ''U'' 2 ''C'' ''id2'',
      Close_op (new_Connection ''U'' 1 ''C'' ''id1''),
      Register ''V'' 3 ''C'' ''id3'']"


text \<open>
  A user with three devices: A and B have validated their key, N is new and has not.
\<close>

definition sample_registry :: registry where
  "sample_registry =
     \<lparr> sockets = Some [(''U'',
         [(''ida'', validateKey (new_Connection ''U'' 1 ''CA'' ''ida'')),
          (''idb'', validateKey (new_Connection ''U'' 2 ''CB'' ''idb'')),
          (''idn'', new_Connection ''U'' 3 ''CN'' ''idn'')])],
       uniqueClients = Some [''CA'' \<mapsto> True, ''CB'' \<mapsto> True, ''CN'' \<mapsto> True] \<rparr>"


section \<open>Properties of the registry\<close>

lemma map_of_update_nil:
  "map_of (case map_of ss uid of None \<Rightarrow> AList.update uid [] ss | Some _ \<Rightarrow> ss) u
     = (if u = uid \<and> map_of ss uid = None then Some [] else map_of ss u)"
  by (auto simp: update_conv' split: option.splits)

lemmas registry_eval =
  Connections_register_def Let_def new_Connection_def empty_registry_def is_present_def
  user_sockets_def connections_of_def inherited_def Object_prototype_names_def

lemma update_fresh: "map_of m k = None \<Longrightarrow> AList.update k v m = m @ [(k, v)]"
  by (induction m) (auto split: if_splits)

text \<open>
  What \<open>register\<close> does, for every registry and every client id. When the lookup
  \<open>uniqueClients[clientId]\<close> is truthy, because the client is present or because the
  name is inherited, the socket is closed with \<open>Client Already Connected\<close>, the result is
  the rejection value, and no user's connections and no client's presence change.
  Otherwise the result is the new Connection under the id just minted; the client is now
  present and nothing else about presence changes; the Connection is stored at
  \<open>sockets[userId][connectionId]\<close>, every other entry of that user and every other user's
  connections are as before, and with a fresh id the Connection comes last among the
  user's connections.
\<close>

lemma register_behaviour:
  "(is_present r cid \<or> inherited cid \<longrightarrow>
      (\<exists>r'. Connections_register r uid sock cid uuid
               = (None, [Close sock Client_Already_Connected], r')
         \<and> (\<forall>u. connections_of r' u = connections_of r u)
         \<and> (\<forall>c. is_present r' c = is_present r c)))
   \<and> (\<not> is_present r cid \<and> \<not> inherited cid \<longrightarrow>
      (\<exists>r'. Connections_register r uid sock cid uuid
               = (Some (new_Connection uid sock cid uuid), [], r')
         \<and> conn_id (new_Connection uid sock cid uuid) = uuid
         \<and> (\<forall>c. is_present r' c \<longleftrightarrow> c = cid \<or> is_present r c)
         \<and> (\<forall>u. u \<noteq> uid \<longrightarrow> connections_of r' u = connections_of r u)
         \<and> (\<forall>i. lookup_connection r' uid i
                  = (if i = uuid then Some (new_Connection uid sock cid uuid)
                     else lookup_connection r uid i))
         \<and> (lookup_connection r uid uuid = None \<longrightarrow>
               connections_of r' uid
                 = connections_of r uid @ [new_Connection uid sock cid uuid])))"
proof (intro conjI impI)
  assume p: "is_present r cid \<or> inherited cid"
  then have n: "(case uniqueClients r of None \<Rightarrow> Map.empty | Some u \<Rightarrow> u) cid = Some True
      \<or> inherited cid"
    by (auto simp: is_present_def split: option.splits)
  show "\<exists>r'. Connections_register r uid sock cid uuid
               = (None, [Close sock Client_Already_Connected], r')
         \<and> (\<forall>u. connections_of r' u = connections_of r u)
         \<and> (\<forall>c. is_present r' c = is_present r c)"
    using n
    by (auto simp: Connections_register_def Let_def connections_of_def user_sockets_def
        is_present_def update_conv' split: option.splits)
next
  assume p: "\<not> is_present r cid \<and> \<not> inherited cid"
  define ss0 where "ss0 = (case sockets r of None \<Rightarrow> [] | Some ss \<Rightarrow> ss)"
  define u0 where "u0 = (case uniqueClients r of None \<Rightarrow> Map.empty | Some u \<Rightarrow> u)"
  define m where "m = (case map_of ss0 uid of None \<Rightarrow> [] | Some m \<Rightarrow> m)"
  define c where "c = new_Connection uid sock cid uuid"
  define ss1 where "ss1 = (case map_of ss0 uid of None \<Rightarrow> AList.update uid [] ss0 | Some _ \<Rightarrow> ss0)"
  define r' where "r' = \<lparr> sockets = Some (AList.update uid (AList.update uuid c m) ss1),
                          uniqueClients = Some (u0(cid \<mapsto> True)) \<rparr>"
  from p have n: "\<not> (u0 cid = Some True \<or> inherited cid)"
    by (auto simp: is_present_def u0_def split: option.splits)
  have m1: "(case map_of ss1 uid of None \<Rightarrow> [] | Some m \<Rightarrow> m) = m"
    by (auto simp: ss1_def m_def update_conv' split: option.splits)
  have reg: "Connections_register r uid sock cid uuid = (Some c, [], r')"
    using n m1 unfolding r'_def c_def ss1_def m_def u0_def ss0_def
    by (simp add: Connections_register_def Let_def new_Connection_def)
  have pres: "is_present r x \<longleftrightarrow> u0 x = Some True" for x
    by (simp add: is_present_def u0_def split: option.splits)
  have pres': "is_present r' x \<longleftrightarrow> x = cid \<or> is_present r x" for x
    unfolding pres by (simp add: r'_def is_present_def)
  have us: "user_sockets r u = map_of ss0 u \<or> (sockets r = None \<and> user_sockets r u = None)" for u
    by (auto simp: user_sockets_def ss0_def split: option.splits)
  have other: "connections_of r' u = connections_of r u" if "u \<noteq> uid" for u
    using that us [of u]
    by (auto simp: r'_def connections_of_def user_sockets_def ss1_def ss0_def update_conv'
        split: option.splits)
  have um: "user_sockets r' uid = Some (AList.update uuid c m)"
    by (simp add: r'_def user_sockets_def update_conv')
  have cm: "connections_of r uid = map snd m"
    by (auto simp: connections_of_def user_sockets_def m_def ss0_def split: option.splits)
  have lm: "lookup_connection r uid i = map_of m i" for i
    by (auto simp: lookup_connection_def user_sockets_def m_def ss0_def split: option.splits)
  have look: "lookup_connection r' uid i = (if i = uuid then Some c else lookup_connection r uid i)"
    for i
    unfolding lm by (simp add: lookup_connection_def um update_conv')
  have last: "connections_of r' uid = connections_of r uid @ [c]"
    if "lookup_connection r uid uuid = None"
    using that unfolding lm cm by (simp add: connections_of_def um update_fresh)
  show "\<exists>r'. Connections_register r uid sock cid uuid
               = (Some (new_Connection uid sock cid uuid), [], r')
         \<and> conn_id (new_Connection uid sock cid uuid) = uuid
         \<and> (\<forall>c. is_present r' c \<longleftrightarrow> c = cid \<or> is_present r c)
         \<and> (\<forall>u. u \<noteq> uid \<longrightarrow> connections_of r' u = connections_of r u)
         \<and> (\<forall>i. lookup_connection r' uid i
                  = (if i = uuid then Some (new_Connection uid sock cid uuid)
                     else lookup_connection r uid i))
         \<and> (lookup_connection r uid uuid = None \<longrightarrow>
               connections_of r' uid
                 = connections_of r uid @ [new_Connection uid sock cid uuid])"
    using reg pres' other look last unfolding c_def
    by (intro exI [of _ r']) (simp add: new_Connection_def)
qed

text \<open>
  Scenario S5: the first registration of client \<open>C\<close> succeeds; the second closes its
  socket and leaves one connection under the user.
\<close>

lemma register_scenario_S5:
  "Connections_register empty_registry ''U'' 1 ''C'' ''id1''
       = (Some (new_Connection ''U'' 1 ''C'' ''id1''), [],
          snd (snd (Connections_register empty_registry ''U'' 1 ''C'' ''id1'')))
   \<and> fst (Connections_register
            (snd (snd (Connections_register empty_registry ''U'' 1 ''C'' ''id1'')))
            ''U'' 2 ''C'' ''id2'') = None
   \<and> fst (snd (Connections_register
            (snd (snd (Connections_register empty_registry ''U'' 1 ''C'' ''id1'')))
            ''U'' 2 ''C'' ''id2'')) = [Close 2 Client_Already_Connected]
   \<and> length (connections_of (snd (snd (Connections_register
            (snd (snd (Connections_register empty_registry ''U'' 1 ''C'' ''id1'')))
            ''U'' 2 ''C'' ''id2''))) ''U'') = 1"
  by (simp add: registry_eval)

text \<open>
  C5. On a registry where nothing has been registered, \<open>register\<close> is called with the
  client id \<open>constructor\<close>. The client id is not present in \<open>uniqueClients\<close>, yet the
  lookup finds the property every object inherits: the socket is closed with
  \<open>Client Already Connected\<close>, the result is the rejection value, the client is not marked
  present and no Connection is stored.
\<close>

theorem register_rejects_inherited_name:
  "\<not> is_present empty_registry ''constructor''
   \<and> fst (Connections_register empty_registry ''U'' 1 ''constructor'' ''id1'') = None
   \<and> fst (snd (Connections_register empty_registry ''U'' 1 ''constructor'' ''id1''))
       = [Close 1 Client_Already_Connected]
   \<and> \<not> is_present (snd (snd (Connections_register empty_registry ''U'' 1 ''constructor''
          ''id1''))) ''constructor''
   \<and> connections_of (snd (snd (Connections_register empty_registry ''U'' 1 ''constructor''
          ''id1''))) ''U'' = []"
  by (simp add: registry_eval)

lemma in_values_update:
  "c' \<in> snd ` set (AList.update k v m) \<Longrightarrow> c' = v \<or> c' \<in> snd ` set m"
  by (induction m) (auto split: if_splits)


lemma Connections_sendSeedRequest_events:
  "fst (Connections_sendSeedRequest r uid connectionId pk)
       = (case lookup_connection r uid connectionId of
            None \<Rightarrow> []
          | Some _ \<Rightarrow> concat (map (\<lambda>c. sendSeedRequest c pk)
                (connections_of (snd (Connections_sendSeedRequest r uid connectionId pk)) uid)))"
  by (simp add: Connections_sendSeedRequest_def lookup_connection_def user_sockets_def Let_def
        split: option.splits)

lemma Connections_sendSeedRequest_targets:
  assumes "c \<in> set (connections_of (snd (Connections_sendSeedRequest r uid connectionId pk)) uid)"
  shows "\<exists>c0 \<in> set (connections_of r uid). keyValidated c = keyValidated c0 \<and> socket c = socket c0"
proof (cases "lookup_connection r uid connectionId")
  case None
  then have "snd (Connections_sendSeedRequest r uid connectionId pk) = r"
    by (auto simp: Connections_sendSeedRequest_def lookup_connection_def user_sockets_def Let_def
        split: option.splits)
  with assms show ?thesis by auto
next
  case (Some conn)
  then obtain ss m where ss: "sockets r = Some ss" "map_of ss uid = Some m" "map_of m connectionId = Some conn"
    by (auto simp: lookup_connection_def user_sockets_def split: option.splits)
  then have "connections_of (snd (Connections_sendSeedRequest r uid connectionId pk)) uid
      = map snd (AList.update connectionId (openSeedRequest conn pk) m)"
    by (simp add: Connections_sendSeedRequest_def Let_def connections_of_def user_sockets_def
        update_conv')
  with assms have "c = openSeedRequest conn pk \<or> c \<in> snd ` set m"
    using in_values_update [of c connectionId "openSeedRequest conn pk" m] by auto
  moreover have "conn \<in> snd ` set m"
    using ss(3) by (metis map_of_SomeD image_eqI snd_conv)
  moreover have "connections_of r uid = map snd m"
    using ss by (simp add: connections_of_def user_sockets_def)
  ultimately have "c = openSeedRequest conn pk \<and> conn \<in> set (connections_of r uid)
      \<or> c \<in> set (connections_of r uid)"
    by auto
  then show ?thesis
  proof
    assume "c = openSeedRequest conn pk \<and> conn \<in> set (connections_of r uid)"
    then show ?thesis
      by (intro bexI [of _ conn]) (simp_all add: openSeedRequest_def)
  next
    assume "c \<in> set (connections_of r uid)"
    then show ?thesis
      by (intro bexI [of _ c]) simp_all
  qed
qed

text \<open>
  C7. The per-connection broadcaster \<open>sendSeedRequest\<close> does nothing on a connection
  whose \<open>keyValidated\<close> is false; what the user-scoped broadcast writes is exactly what
  the per-connection broadcasters of the user's connections write, in turn; and so every
  \<open>ReceiveRequestForSeed\<close> message of a broadcast goes to the socket of a connection of
  that user whose \<open>keyValidated\<close> is true.
\<close>

theorem seed_request_only_to_validated:
  "(\<not> keyValidated c \<longrightarrow> sendSeedRequest c pk = [])
   \<and> fst (Connections_sendSeedRequest r uid connectionId pk)
       = (case lookup_connection r uid connectionId of
            None \<Rightarrow> []
          | Some _ \<Rightarrow> concat (map (\<lambda>c. sendSeedRequest c pk)
                (connections_of (snd (Connections_sendSeedRequest r uid connectionId pk)) uid)))
   \<and> (\<forall>e \<in> set (fst (Connections_sendSeedRequest r uid connectionId pk)).
         \<exists>c0 \<in> set (connections_of r uid).
            keyValidated c0 \<and> e = Send (socket c0) (ReceiveRequestForSeed pk))"
proof (intro conjI impI ballI)
  show "sendSeedRequest c pk = []" if "\<not> keyValidated c"
    using that by (simp add: sendSeedRequest_def)
  show "fst (Connections_sendSeedRequest r uid connectionId pk)
       = (case lookup_connection r uid connectionId of
            None \<Rightarrow> []
          | Some _ \<Rightarrow> concat (map (\<lambda>c. sendSeedRequest c pk)
                (connections_of (snd (Connections_sendSeedRequest r uid connectionId pk)) uid)))"
    by (rule Connections_sendSeedRequest_events)
  fix e
  assume "e \<in> set (fst (Connections_sendSeedRequest r uid connectionId pk))"
  then obtain c1 where c1:
    "c1 \<in> set (connections_of (snd (Connections_sendSeedRequest r uid connectionId pk)) uid)"
    "e \<in> set (sendSeedRequest c1 pk)"
    unfolding Connections_sendSeedRequest_events [of r uid connectionId pk]
    by (auto split: option.splits)
  from c1(2) have v: "keyValidated c1" "e = Send (socket c1) (ReceiveRequestForSeed pk)"
    by (auto simp: sendSeedRequest_def split: if_splits)
  from Connections_sendSeedRequest_targets [OF c1(1)] v
  show "\<exists>c0 \<in> set (connections_of r uid).
            keyValidated c0 \<and> e = Send (socket c0) (ReceiveRequestForSeed pk)"
    by auto
qed

text \<open>
  Scenario S6, the request: device N asks; the validated devices A and B receive the
  request, N itself does not.
\<close>

theorem seed_request_only_to_validated_witness:
  "\<not> keyValidated (new_Connection ''U'' 3 ''CN'' ''idn'')
   \<and> sendSeedRequest (new_Connection ''U'' 3 ''CN'' ''idn'') (Some ''pkN'') = []
   \<and> fst (Connections_sendSeedRequest sample_registry ''U'' ''idn'' (Some ''pkN''))
       = [Send 1 (ReceiveRequestForSeed (Some ''pkN'')),
          Send 2 (ReceiveRequestForSeed (Some ''pkN''))]"
proof -
  have a: "\<not> keyValidated (new_Connection ''U'' 3 ''CN'' ''idn'')"
    by (simp add: new_Connection_def)
  have b: "fst (Connections_sendSeedRequest sample_registry ''U'' ''idn'' (Some ''pkN''))
       = [Send 1 (ReceiveRequestForSeed (Some ''pkN'')),
          Send 2 (ReceiveRequestForSeed (Some ''pkN''))]"
    by (simp add: Connections_sendSeedRequest_def sample_registry_def registry_eval
        sendSeedRequest_def openSeedRequest_def validateKey_def)
  from a b
    seed_request_only_to_validated [of "new_Connection ''U'' 3 ''CN'' ''idn''" "Some ''pkN''"
      sample_registry "''U''" "''idn''"]
  show ?thesis
    by simp
qed

text \<open>
  C8. A connection writes \<open>{route: ReceiveSeed, senderPublicKey, encryptedSeed}\<close> exactly
  when its stored \<open>requesterPublicKey\<close> equals the one of the message, and nothing
  otherwise; \<open>Connections.sendSeed\<close> writes what the user's connections write, in turn.
\<close>

theorem seed_delivery_only_to_requester:
  "sendSeed c sender pk enc
     = (if requesterPublicKey c = pk then [Send (socket c) (ReceiveSeed enc sender)] else [])
   \<and> Connections_sendSeed r uid sender pk enc
     = concat (map (\<lambda>c. sendSeed c sender pk enc) (connections_of r uid))"
  by (auto simp: sendSeed_def Connections_sendSeed_def connections_of_def user_sockets_def
      split: option.splits)

text \<open>
  Scenario S6, the delivery: after N's request, the seed sent by A reaches N only.
\<close>

theorem seed_delivery_only_to_requester_witness:
  "Connections_sendSeed
      (snd (Connections_sendSeedRequest sample_registry ''U'' ''idn'' (Some ''pkN'')))
      ''U'' ''pkA'' (Some ''pkN'') ''enc''
     = [Send 3 (ReceiveSeed ''enc'' ''pkA'')]"
proof -
  have "connections_of
      (snd (Connections_sendSeedRequest sample_registry ''U'' ''idn'' (Some ''pkN''))) ''U''
     = [validateKey (new_Connection ''U'' 1 ''CA'' ''ida''),
        validateKey (new_Connection ''U'' 2 ''CB'' ''idb''),
        openSeedRequest (new_Connection ''U'' 3 ''CN'' ''idn'') (Some ''pkN'')]"
    by (simp add: Connections_sendSeedRequest_def sample_registry_def registry_eval)
  with seed_delivery_only_to_requester
         [of _ "''pkA''" "Some ''pkN''" "''enc''"
             "snd (Connections_sendSeedRequest sample_registry ''U'' ''idn'' (Some ''pkN''))"
             "''U''"]
  show ?thesis
    by (simp add: sendSeed_def openSeedRequest_def validateKey_def new_Connection_def)
qed

lemma update_split:
  "map_of ss k = Some m \<Longrightarrow>
     \<exists>pre post. ss = pre @ (k, m) # post \<and> AList.update k v ss = pre @ (k, v) # post"
proof (induction ss)
  case Nil
  then show ?case by simp
next
  case (Cons p ss)
  show ?case
  proof (cases "fst p = k")
    case True
    with Cons.prems have "p = (k, m)" by (cases p) auto
    then have "p # ss = [] @ (k, m) # ss \<and> AList.update k v (p # ss) = [] @ (k, v) # ss"
      by simp
    then show ?thesis by blast
  next
    case False
    with Cons.prems have "map_of ss k = Some m" by (cases p) auto
    from Cons.IH [OF this] obtain pre post where
      "ss = pre @ (k, m) # post" "AList.update k v ss = pre @ (k, v) # post" by blast
    with False have "p # ss = (p # pre) @ (k, m) # post
        \<and> AList.update k v (p # ss) = (p # pre) @ (k, v) # post"
      by (cases p) auto
    then show ?thesis by blast
  qed
qed

lemma delete_split:
  "distinct (map fst m) \<Longrightarrow> map_of m k = Some c \<Longrightarrow>
     \<exists>p q. m = p @ (k, c) # q \<and> AList.delete k m = p @ q"
proof (induction m)
  case Nil
  then show ?case by simp
next
  case (Cons x m)
  show ?case
  proof (cases "fst x = k")
    case True
    with Cons.prems have x: "x = (k, c)" by (cases x) auto
    from Cons.prems True have "k \<notin> fst ` set m" by auto
    then have "AList.delete k m = m"
      by simp
    with x have "x # m = [] @ (k, c) # m \<and> AList.delete k (x # m) = [] @ m"
      by simp
    then show ?thesis by blast
  next
    case False
    with Cons.prems have "map_of m k = Some c" "distinct (map fst m)" by (cases x; auto)+
    from Cons.IH [OF this(2) this(1)] obtain p q where
      "m = p @ (k, c) # q" "AList.delete k m = p @ q" by blast
    with False have "x # m = (x # p) @ (k, c) # q \<and> AList.delete k (x # m) = (x # p) @ q"
      by (cases x) auto
    then show ?thesis by blast
  qed
qed

lemma count_distinct:
  "distinct (map f xs) \<Longrightarrow> length (filter (\<lambda>x. f x = a) xs) = (if a \<in> f ` set xs then 1 else 0)"
  by (induction xs) auto


lemma empty_registry_inv: "registry_inv empty_registry"
  by (simp add: registry_inv_def empty_registry_def all_connections_def is_present_def)

lemma register_inv:
  assumes inv: "registry_inv r" and adm: "admissible r (Register uid sock cid uuid)"
  shows "registry_inv (apply_op r (Register uid sock cid uuid))"
proof -
  define ss0 where "ss0 = (case sockets r of None \<Rightarrow> [] | Some ss \<Rightarrow> ss)"
  define ss1 where "ss1 = (case map_of ss0 uid of None \<Rightarrow> AList.update uid [] ss0 | Some _ \<Rightarrow> ss0)"
  define u0 where "u0 = (case uniqueClients r of None \<Rightarrow> Map.empty | Some u \<Rightarrow> u)"
  define m where "m = (case map_of ss1 uid of None \<Rightarrow> [] | Some m \<Rightarrow> m)"
  define conns :: "(string \<times> (string \<times> connection) list) list \<Rightarrow> connection list"
    where "conns = (\<lambda>ss. concat (map (\<lambda>(uid, m). map snd m) ss))"
  have all0: "all_connections r = conns ss0"
    by (simp add: all_connections_def ss0_def conns_def split: option.splits)
  have pres: "is_present r x \<longleftrightarrow> u0 x = Some True" for x
    by (simp add: is_present_def u0_def split: option.splits)
  have d0: "\<forall>(uid, m) \<in> set ss0. distinct (map fst m)"
    using inv by (auto simp: registry_inv_def ss0_def split: option.splits)
  have ss1: "ss1 = ss0 \<or> (map_of ss0 uid = None \<and> ss1 = ss0 @ [(uid, [])])"
    by (auto simp: ss1_def update_fresh split: option.splits)
  have c1: "conns ss1 = conns ss0"
    using ss1 by (auto simp: conns_def)
  have d1: "\<forall>(uid, m) \<in> set ss1. distinct (map fst m)"
    using ss1 d0 by auto
  have m1: "map_of ss1 uid = Some m"
    by (auto simp: ss1_def m_def update_conv' split: option.splits)
  have fresh: "map_of m uuid = None"
  proof (cases "map_of ss0 uid")
    case None
    then have "m = []"
      using m1 by (simp add: ss1_def update_conv')
    then show ?thesis by simp
  next
    case (Some m')
    then have "ss1 = ss0" by (simp add: ss1_def)
    with m1 Some have "m = m'" by simp
    moreover have "sockets r = Some ss0"
      using Some by (auto simp: ss0_def split: option.splits)
    ultimately show ?thesis
      using adm Some by (simp add: lookup_connection_def user_sockets_def)
  qed
  show ?thesis
  proof (cases "u0 cid = Some True \<or> inherited cid")
    case True
    then have r': "apply_op r (Register uid sock cid uuid)
        = \<lparr> sockets = Some ss1, uniqueClients = Some u0 \<rparr>"
      unfolding ss1_def ss0_def u0_def by (auto simp: Connections_register_def Let_def)
    have "all_connections (apply_op r (Register uid sock cid uuid)) = all_connections r"
      unfolding r' all0 by (simp add: all_connections_def c1 [unfolded conns_def] conns_def)
    moreover have "is_present (apply_op r (Register uid sock cid uuid)) x = is_present r x" for x
      unfolding r' pres by (simp add: is_present_def)
    ultimately show ?thesis
      using inv d1 unfolding registry_inv_def by (simp add: r' del: apply_op.simps)
  next
    case False
    define c where "c = new_Connection uid sock cid uuid"
    have r': "apply_op r (Register uid sock cid uuid)
        = \<lparr> sockets = Some (AList.update uid (AList.update uuid c m) ss1),
            uniqueClients = Some (u0(cid \<mapsto> True)) \<rparr>"
      using False unfolding c_def m_def ss1_def ss0_def u0_def
      by (simp add: Connections_register_def Let_def new_Connection_def)
    have mu: "AList.update uuid c m = m @ [(uuid, c)]"
      using fresh by (rule update_fresh)
    from update_split [OF m1, of "m @ [(uuid, c)]"] obtain pre post where
      sp: "ss1 = pre @ (uid, m) # post"
          "AList.update uid (m @ [(uuid, c)]) ss1 = pre @ (uid, m @ [(uuid, c)]) # post"
      by blast
    have old: "all_connections r = conns pre @ map snd m @ conns post"
      unfolding all0 c1 [symmetric] sp(1) by (simp add: conns_def)
    have new: "all_connections (apply_op r (Register uid sock cid uuid))
        = conns pre @ (map snd m @ [c]) @ conns post"
      unfolding r' mu sp(2) by (simp add: all_connections_def conns_def)
    have cid: "clientId c = cid"
      by (simp add: c_def new_Connection_def)
    have notin: "cid \<notin> clientId ` set (all_connections r)"
      using inv False pres unfolding registry_inv_def by blast
    have dist: "distinct (map clientId (all_connections r))"
      using inv by (simp add: registry_inv_def)
    have "distinct (map clientId (all_connections (apply_op r (Register uid sock cid uuid))))"
      using dist notin unfolding new old by (auto simp: cid)
    moreover have "is_present (apply_op r (Register uid sock cid uuid)) x
        \<longleftrightarrow> x \<in> clientId ` set (all_connections (apply_op r (Register uid sock cid uuid)))" for x
    proof -
      have "is_present (apply_op r (Register uid sock cid uuid)) x \<longleftrightarrow> x = cid \<or> is_present r x"
        unfolding pres r' by (simp add: is_present_def)
      also have "\<dots> \<longleftrightarrow> x = cid \<or> x \<in> clientId ` set (all_connections r)"
        using inv unfolding registry_inv_def by blast
      also have "\<dots> \<longleftrightarrow> x \<in> clientId ` set (all_connections (apply_op r (Register uid sock cid uuid)))"
        unfolding new old using cid by auto
      finally show ?thesis .
    qed
    moreover have "\<forall>(uid, m) \<in> set (AList.update uid (AList.update uuid c m) ss1). distinct (map fst m)"
    proof -
      have "distinct (map fst m)"
        using d1 sp(1) by auto
      moreover have "uuid \<notin> fst ` set m"
        using fresh by (simp add: map_of_eq_None_iff)
      ultimately have "distinct (map fst (m @ [(uuid, c)]))"
        by auto
      then show ?thesis
        unfolding mu sp(2) using d1 unfolding sp(1) by auto
    qed
    ultimately show ?thesis
      unfolding registry_inv_def by (simp add: r' del: apply_op.simps)
  qed
qed

lemma close_inv:
  assumes inv: "registry_inv r" and adm: "admissible r (Close_op c)"
  shows "registry_inv (apply_op r (Close_op c))"
proof -
  define conns :: "(string \<times> (string \<times> connection) list) list \<Rightarrow> connection list"
    where "conns = (\<lambda>ss. concat (map (\<lambda>(uid, m). map snd m) ss))"
  from adm obtain ss m where ss: "sockets r = Some ss" "map_of ss (userId c) = Some m"
      "map_of m (conn_id c) = Some c"
    by (auto simp: lookup_connection_def user_sockets_def split: option.splits)
  from inv ss(1) obtain u where u: "uniqueClients r = Some u"
    by (auto simp: registry_inv_def)
  have r': "apply_op r (Close_op c)
      = \<lparr> sockets = Some (AList.update (userId c) (AList.delete (conn_id c) m) ss),
          uniqueClients = Some (u(clientId c := None)) \<rparr>"
    using ss u by (simp add: Connections_close_def Let_def)
  have dall: "\<forall>(uid, m) \<in> set ss. distinct (map fst m)"
    using inv ss(1) by (simp add: registry_inv_def)
  have "(userId c, m) \<in> set ss"
    using ss(2) by (rule map_of_SomeD)
  with dall have dm: "distinct (map fst m)" by auto
  from delete_split [OF dm ss(3)] obtain p q where
    pq: "m = p @ (conn_id c, c) # q" "AList.delete (conn_id c) m = p @ q" by blast
  from update_split [OF ss(2), of "p @ q"] obtain pre post where
    sp: "ss = pre @ (userId c, m) # post"
        "AList.update (userId c) (p @ q) ss = pre @ (userId c, p @ q) # post" by blast
  have old: "all_connections r = conns pre @ (map snd p @ c # map snd q) @ conns post"
    using ss(1) sp(1) pq(1) by (simp add: all_connections_def conns_def)
  have new: "all_connections (apply_op r (Close_op c))
      = conns pre @ (map snd p @ map snd q) @ conns post"
    unfolding r' pq(2) sp(2) by (simp add: all_connections_def conns_def)
  have dist: "distinct (map clientId (all_connections r))"
    using inv by (simp add: registry_inv_def)
  have d': "distinct (map clientId (all_connections (apply_op r (Close_op c))))"
    using dist unfolding old new by auto
  have gone: "clientId c \<notin> clientId ` set (all_connections (apply_op r (Close_op c)))"
    using dist unfolding old new by auto
  have pres: "is_present (apply_op r (Close_op c)) x
      \<longleftrightarrow> x \<in> clientId ` set (all_connections (apply_op r (Close_op c)))" for x
  proof (cases "x = clientId c")
    case True
    then show ?thesis
      using gone unfolding r' by (simp add: is_present_def)
  next
    case False
    then have "is_present (apply_op r (Close_op c)) x \<longleftrightarrow> is_present r x"
      using u unfolding r' by (simp add: is_present_def)
    also have "\<dots> \<longleftrightarrow> x \<in> clientId ` set (all_connections r)"
      using inv unfolding registry_inv_def by blast
    also have "\<dots> \<longleftrightarrow> x \<in> clientId ` set (all_connections (apply_op r (Close_op c)))"
      unfolding old new using False by auto
    finally show ?thesis .
  qed
  have "\<forall>(uid, m) \<in> set (AList.update (userId c) (AList.delete (conn_id c) m) ss).
          distinct (map fst m)"
  proof -
    have "distinct (map fst (p @ q))"
      using dm unfolding pq(1) by auto
    then show ?thesis
      unfolding pq(2) sp(2) using dall unfolding sp(1) by auto
  qed
  with d' pres show ?thesis
    unfolding registry_inv_def by (simp add: r' del: apply_op.simps)
qed

lemma run_inv:
  "registry_inv r \<Longrightarrow> admissible_run r ops \<Longrightarrow> registry_inv (run r ops)"
proof (induction ops arbitrary: r)
  case Nil
  then show ?case by simp
next
  case (Cons x ops)
  from Cons.prems have adm: "admissible r x" and rest: "admissible_run (apply_op r x) ops"
    by simp_all
  have "registry_inv (apply_op r x)"
  proof (cases x)
    case (Register uid sock cid uuid)
    with Cons.prems(1) adm show ?thesis
      using register_inv [of r uid sock cid uuid] by blast
  next
    case (Close_op c)
    with Cons.prems(1) adm show ?thesis
      using close_inv [of r c] by blast
  qed
  from Cons.IH [OF this rest] show ?case by simp
qed

text \<open>
  C6, as far as it holds. Starting from the empty registry, after any run of \<open>register\<close>
  calls whose minted id is not already a key of \<open>sockets[userId]\<close> and of \<open>close\<close> calls
  on a connection that is stored in \<open>sockets\<close> at the time of the call, a client id is
  present in \<open>uniqueClients\<close> if and only if exactly one Connection with that client id
  is in \<open>sockets\<close>.
\<close>

theorem registry_uniqueness_live:
  assumes "admissible_run empty_registry ops"
  shows "is_present (run empty_registry ops) cid
           \<longleftrightarrow> connections_with (run empty_registry ops) cid = 1"
proof -
  have inv: "registry_inv (run empty_registry ops)"
    using empty_registry_inv assms by (rule run_inv)
  then have "distinct (map clientId (all_connections (run empty_registry ops)))"
    by (simp add: registry_inv_def)
  from count_distinct [OF this, of cid] inv show ?thesis
    unfolding connections_with_def registry_inv_def by auto
qed


text \<open>
  Without the restriction on \<open>close\<close> the invariant fails. A connection of client \<open>C\<close> is
  registered and closed, the client registers again, and the first connection object
  is closed a second time: \<open>close\<close> deletes \<open>uniqueClients[C]\<close> although the second
  Connection of \<open>C\<close> is still in \<open>sockets\<close>.
\<close>

theorem registry_uniqueness_counterexample:
  "\<not> is_present (run empty_registry stale_close_run) ''C''
   \<and> connections_with (run empty_registry stale_close_run) ''C'' = 1"
  by (simp add: stale_close_run_def registry_eval Connections_close_def connections_with_def
      all_connections_def lookup_connection_def)

lemma stale_not_admissible: "\<not> admissible_run empty_registry stale_close_run"
  by (simp add: stale_close_run_def registry_eval Connections_close_def connections_with_def
      all_connections_def lookup_connection_def)

theorem registry_uniqueness_live_witness:
  "admissible_run empty_registry live_run
   \<and> is_present (run empty_registry live_run) ''C''
   \<and> connections_with (run empty_registry live_run) ''C'' = 1"
proof -
  have a: "admissible_run empty_registry live_run"
    by (simp add: live_run_def registry_eval Connections_close_def lookup_connection_def)
  have p: "is_present (run empty_registry live_run) ''C''"
    by (simp add: live_run_def registry_eval Connections_close_def)
  from registry_uniqueness_live [OF a, of "''C''"] a p show ?thesis
    by simp
qed



section \<open>The transactions table\<close>

text \<open>
  Modelled from the spec: the document client behind \<open>connection.ddbClient()\<close>, an
  external service, by the store contract: a range query over one partition that returns
  the items in ascending order of the sort key, page by page, and a put under the
  condition that no item exists at the primary key. The query of \<open>push\<close> does not ask for
  a consistent read, so it reads \<open>replica\<close>, a copy of the table that may lack items
  other writers have just put; a conditional put is decided on \<open>table\<close> itself.
  A page holds at most \<open>Suc page_limit\<close> items.
\<close>

record ddb =
  table :: "txn list"
  replica :: "txn list"
  page_limit :: nat

datatype ddb_error = ConditionalCheckFailedException

text \<open>
  The parameters of the query of \<open>push\<close> that vary: \<open>:dbId\<close>, \<open>:seqNo\<close> and
  \<open>ExclusiveStartKey\<close>. A key of the partition is given by its \<open>sequence-no\<close>.
\<close>

record query_params =
  param_dbId :: string
  param_seqNo :: int
  ExclusiveStartKey :: "int option"

record query_response =
  Items :: "txn list"
  LastEvaluatedKey :: "int option"

definition selected :: "query_params \<Rightarrow> txn \<Rightarrow> bool" where
  "selected params t =
     (database_id t = param_dbId params \<and> sequence_no t > param_seqNo params
      \<and> (case ExclusiveStartKey params of None \<Rightarrow> True | Some k \<Rightarrow> sequence_no t > k))"

definition matching :: "ddb \<Rightarrow> query_params \<Rightarrow> txn list" where
  "matching d params = sort_key sequence_no (filter (selected params) (replica d))"

definition query :: "ddb \<Rightarrow> query_params \<Rightarrow> query_response" where
  "query d params =
     \<lparr> Items = take (Suc (page_limit d)) (matching d params),
       LastEvaluatedKey =
         (if length (matching d params) > Suc (page_limit d)
          then Some (sequence_no (last (take (Suc (page_limit d)) (matching d params))))
          else None) \<rparr>"

definition occupied :: "ddb \<Rightarrow> string \<Rightarrow> int \<Rightarrow> bool" where
  "occupied d databaseId n =
     list_ex (\<lambda>t. database_id t = databaseId \<and> sequence_no t = n) (table d)"

definition put :: "ddb \<Rightarrow> txn \<Rightarrow> ddb_error + ddb" where
  "put d item =
     (if occupied d (database_id item) (sequence_no item)
      then Inl ConditionalCheckFailedException
      else Inr (d\<lparr>table := table d @ [item]\<rparr>))"


section \<open>Rollback\<close>

definition rolledBackItem :: "int \<Rightarrow> string \<Rightarrow> int \<Rightarrow> txn" where
  "rolledBackItem now databaseId i =
     \<lparr> database_id = databaseId, sequence_no = i, command = ''Rollback'',
       item_key = None, item_record = None, item_operations = None,
       creation_date = now \<rparr>"

text \<open>
  The body of the loop of \<open>rollback\<close> over the sequence numbers still to be written. A
  failed put rejects the promise: the list collected so far is lost, the puts already
  made are not undone.
\<close>

fun rollback_loop ::
  "int \<Rightarrow> string \<Rightarrow> ddb \<Rightarrow> int list \<Rightarrow> txn list \<Rightarrow> ddb \<times> (ddb_error + txn list)"
where
  "rollback_loop now databaseId d [] rolledBackTransactions = (d, Inr rolledBackTransactions)"
| "rollback_loop now databaseId d (i # rest) rolledBackTransactions =
     (case put d (rolledBackItem now databaseId i) of
        Inl e \<Rightarrow> (d, Inl e)
      | Inr d' \<Rightarrow>
          rollback_loop now databaseId d' rest
            (rolledBackTransactions @ [rolledBackItem now databaseId i]))"

text \<open>
  \<open>Connection.rollback(lastSeqNo, thisSeqNo, databaseId, ddbClient)\<close>: the loop runs
  \<open>i\<close> from \<open>lastSeqNo + 1\<close> to \<open>thisSeqNo - 1\<close>.
\<close>

definition rollback :: "int \<Rightarrow> ddb \<Rightarrow> int \<Rightarrow> int \<Rightarrow> string \<Rightarrow> ddb \<times> (ddb_error + txn list)" where
  "rollback now d lastSeqNo_arg thisSeqNo databaseId =
     rollback_loop now databaseId d [lastSeqNo_arg + 1 .. thisSeqNo - 1] []"


section \<open>The range scan of push\<close>

text \<open>
  The variables of the scan: the flag \<open>gapInSeqNo\<close>, the local \<open>lastSeqNo\<close> (the
  cursor), the buffer \<open>ddbTransactionLog\<close>, and the store.
\<close>

record scan_state =
  gapInSeqNo :: bool
  scan_lastSeqNo :: int
  ddbTransactionLog :: "txn list"
  store :: ddb

text \<open>
  The \<open>for\<close> loop over the items of one page. Its condition \<open>!gapInSeqNo\<close> is tested
  before every item; \<open>continue\<close> goes to the next test. The flag is assigned at the
  head of the body and nowhere else.
\<close>

fun scan_items ::
  "int \<Rightarrow> string \<Rightarrow> database \<Rightarrow> txn list \<Rightarrow> scan_state \<Rightarrow> ddb_error \<times> ddb + scan_state"
where
  "scan_items now databaseId db [] st = Inr st"
| "scan_items now databaseId db (item # items) st =
     (if gapInSeqNo st then Inr st
      else if sequence_no item > scan_lastSeqNo st + 1
              \<and> now - creation_date item > SECONDS_BEFORE_ROLLBACK_GAP_TRIGGERED
      then
        (case rollback now (store st) (scan_lastSeqNo st) (sequence_no item) databaseId of
           (d', Inl e) \<Rightarrow> Inl (e, d')
         | (d', Inr rolledBackTransactions) \<Rightarrow>
             scan_items now databaseId db items
               \<lparr> gapInSeqNo = True,
                 scan_lastSeqNo = sequence_no item,
                 ddbTransactionLog =
                   ddbTransactionLog st
                   @ filter (\<lambda>t. sequence_no t > lastSeqNo db) rolledBackTransactions
                   @ (if sequence_no item > lastSeqNo db then [item] else []),
                 store = d' \<rparr>)
      else if sequence_no item > scan_lastSeqNo st + 1
      then scan_items now databaseId db items (st\<lparr>gapInSeqNo := True\<rparr>)
      else
        scan_items now databaseId db items
          (st\<lparr> gapInSeqNo := False,
              scan_lastSeqNo := sequence_no item,
              ddbTransactionLog :=
                ddbTransactionLog st
                @ (if sequence_no item > lastSeqNo db then [item] else []) \<rparr>))"

lemma rollback_loop_replica:
  "replica (fst (rollback_loop now databaseId d xs acc)) = replica d
   \<and> page_limit (fst (rollback_loop now databaseId d xs acc)) = page_limit d"
  by (induction xs arbitrary: d acc) (auto simp: put_def split: sum.splits if_splits)

lemma scan_items_replica:
  "scan_items now databaseId db items st = Inr st' \<Longrightarrow>
     replica (store st') = replica (store st) \<and> page_limit (store st') = page_limit (store st)"
proof (induction items arbitrary: st)
  case Nil
  then show ?case by simp
next
  case (Cons item items)
  show ?case
  proof (cases "gapInSeqNo st")
    case True
    with Cons.prems show ?thesis by simp
  next
    case False
    note ng = this
    show ?thesis
    proof (cases "sequence_no item > scan_lastSeqNo st + 1
              \<and> now - creation_date item > SECONDS_BEFORE_ROLLBACK_GAP_TRIGGERED")
      case True
      obtain d' res where r: "rollback now (store st) (scan_lastSeqNo st) (sequence_no item) databaseId = (d', res)"
        by (cases "rollback now (store st) (scan_lastSeqNo st) (sequence_no item) databaseId")
      have d': "replica d' = replica (store st) \<and> page_limit d' = page_limit (store st)"
        using rollback_loop_replica [of now databaseId "store st" _ "[]"] r
        unfolding rollback_def by (metis fst_conv)
      from Cons.prems ng True r obtain rolled where res: "res = Inr rolled"
        by (cases res) auto
      define st1 where "st1 =
               \<lparr> gapInSeqNo = True,
                 scan_lastSeqNo = sequence_no item,
                 ddbTransactionLog =
                   ddbTransactionLog st
                   @ filter (\<lambda>t. sequence_no t > lastSeqNo db) rolled
                   @ (if sequence_no item > lastSeqNo db then [item] else []),
                 store = d' \<rparr>"
      from Cons.prems ng True r res have "scan_items now databaseId db items st1 = Inr st'"
        by (simp add: st1_def)
      from Cons.IH [OF this] d' show ?thesis
        by (simp add: st1_def)
    next
      case False
      with Cons.prems ng Cons.IH show ?thesis
        by (auto split: if_splits)
    qed
  qed
qed

lemma matching_shrinks:
  assumes "LastEvaluatedKey (query d params) = Some k"
  shows "length (matching d (params\<lparr>ExclusiveStartKey := Some k\<rparr>)) < length (matching d params)"
proof -
  let ?xs = "matching d params"
  let ?n = "Suc (page_limit d)"
  from assms have len: "length ?xs > ?n" and k: "k = sequence_no (last (take ?n ?xs))"
    by (auto simp: query_def split: if_splits)
  have ne: "take ?n ?xs \<noteq> []"
    using len by auto
  then have "last (take ?n ?xs) \<in> set (take ?n ?xs)"
    by (rule last_in_set)
  then have "last (take ?n ?xs) \<in> set ?xs"
    by (rule in_set_takeD)
  then obtain x where x: "x \<in> set (replica d)" "selected params x" "sequence_no x = k"
    unfolding matching_def k by auto
  have sel: "selected (params\<lparr>ExclusiveStartKey := Some k\<rparr>) t
               \<longleftrightarrow> selected params t \<and> sequence_no t > k" for t
    using x(2,3) by (auto simp: selected_def split: option.splits)
  have "filter (selected (params\<lparr>ExclusiveStartKey := Some k\<rparr>)) (replica d)
          = filter (\<lambda>t. sequence_no t > k) (filter (selected params) (replica d))"
    by (auto simp: sel intro: filter_cong)
  moreover have "length (filter (\<lambda>t. sequence_no t > k) (filter (selected params) (replica d)))
          < length (filter (selected params) (replica d))"
    by (rule length_filter_less [of x]) (use x in auto)
  ultimately show ?thesis
    by (simp add: matching_def)
qed

text \<open>
  The \<open>do ... while\<close> loop over the pages: the next page is asked for while the response
  carries a \<open>LastEvaluatedKey\<close> and the flag is not set.
\<close>

function scan_pages ::
  "int \<Rightarrow> string \<Rightarrow> database \<Rightarrow> query_params \<Rightarrow> scan_state \<Rightarrow> ddb_error \<times> ddb + scan_state"
where
  "scan_pages now databaseId db params st =
     (case scan_items now databaseId db (Items (query (store st) params)) st of
        Inl e \<Rightarrow> Inl e
      | Inr st' \<Rightarrow>
          if LastEvaluatedKey (query (store st) params) \<noteq> None \<and> \<not> gapInSeqNo st'
          then scan_pages now databaseId db
                 (params\<lparr>ExclusiveStartKey := LastEvaluatedKey (query (store st) params)\<rparr>) st'
          else Inr st')"
  by pat_completeness auto
termination
proof (relation "measure (\<lambda>(now, databaseId, db, params, st). length (matching (store st) params))")
  show "wf (measure (\<lambda>(now, databaseId, db, params, st). length (matching (store st) params)))"
    by simp
next
  fix now :: int and databaseId :: string and db :: database and params :: query_params
    and st st' :: scan_state
  assume s: "scan_items now databaseId db (Items (query (store st) params)) st = Inr st'"
    and c: "LastEvaluatedKey (query (store st) params) \<noteq> None \<and> \<not> gapInSeqNo st'"
  from c obtain k where k: "LastEvaluatedKey (query (store st) params) = Some k"
    by auto
  from scan_items_replica [OF s] have "matching (store st') p = matching (store st) p" for p
    by (simp add: matching_def)
  with matching_shrinks [OF k] k
  show "((now, databaseId, db,
          params\<lparr>ExclusiveStartKey := LastEvaluatedKey (query (store st) params)\<rparr>, st'),
         (now, databaseId, db, params, st))
        \<in> measure (\<lambda>(now, databaseId, db, params, st). length (matching (store st) params))"
    by simp
qed


declare scan_pages.simps [simp del]


section \<open>push\<close>

text \<open>
  What \<open>push\<close> takes from its surroundings: the size estimator and \<open>db.getBundle\<close>,
  which are imported from modules outside this development, and the clock. A bundle that
  \<open>getBundle\<close> does not deliver is \<open>None\<close>.
\<close>

record env =
  estimateSizeOfDdbItem :: "txn \<Rightarrow> int"
  getBundle :: "string \<Rightarrow> int \<Rightarrow> string option"
  now :: int

text \<open>Truthiness of an optional string: undefined and the empty string are falsy.\<close>

fun truthy :: "string option \<Rightarrow> bool" where
  "truthy None = False"
| "truthy (Some s) = (s \<noteq> [])"

definition reopeningDatabase :: "int option \<Rightarrow> bool" where
  "reopeningDatabase reopenAtSeqNo = (reopenAtSeqNo \<noteq> None)"

definition openingDatabase :: "string option \<Rightarrow> string option \<Rightarrow> int option \<Rightarrow> bool" where
  "openingDatabase dbNameHash_arg dbKey_arg reopenAtSeqNo =
     (truthy dbNameHash_arg \<and> truthy dbKey_arg \<and> \<not> reopeningDatabase reopenAtSeqNo)"

text \<open>The condition of the bundle preface.\<close>

definition bundle_preface :: "database \<Rightarrow> bool" where
  "bundle_preface db = (bundleSeqNo db > 0 \<and> lastSeqNo db = 0)"

text \<open>The payload as it stands when the scan begins.\<close>

definition push_payload ::
  "env \<Rightarrow> database \<Rightarrow> string \<Rightarrow> string option \<Rightarrow> string option \<Rightarrow> int option \<Rightarrow> payload"
where
  "push_payload e db databaseId dbNameHash_arg dbKey_arg reopenAtSeqNo =
     (let p0 = \<lparr> route = ''ApplyTransactions'', dbId = databaseId, dbNameHash = None,
                  dbKey = None, payload_bundleSeqNo = None, payload_bundle = None,
                  transactionLog = Some [] \<rparr>;
          p1 = (if openingDatabase dbNameHash_arg dbKey_arg reopenAtSeqNo
                then p0\<lparr>dbNameHash := dbNameHash_arg, dbKey := dbKey_arg\<rparr>
                else p0)
      in if bundle_preface db
         then p1\<lparr>payload_bundleSeqNo := Some (bundleSeqNo db),
                 payload_bundle := getBundle e databaseId (bundleSeqNo db)\<rparr>
         else p1)"

text \<open>The local \<open>lastSeqNo\<close> when the scan begins.\<close>

definition scan_from :: "database \<Rightarrow> int" where
  "scan_from db = (if bundle_preface db then bundleSeqNo db else lastSeqNo db)"

text \<open>The whole range scan: the \<open>try\<close> block of \<open>push\<close>.\<close>

definition scan :: "int \<Rightarrow> ddb \<Rightarrow> database \<Rightarrow> string \<Rightarrow> ddb_error \<times> ddb + scan_state" where
  "scan t d db databaseId =
     scan_pages t databaseId db
       \<lparr> param_dbId = databaseId, param_seqNo = scan_from db, ExclusiveStartKey = None \<rparr>
       \<lparr> gapInSeqNo = False, scan_lastSeqNo = scan_from db, ddbTransactionLog = [],
         store = d \<rparr>"

text \<open>The three checks after the scan; \<open>push\<close> returns when one of them fails.\<close>

definition rechecks_pass ::
  "database \<Rightarrow> string option \<Rightarrow> string option \<Rightarrow> int option \<Rightarrow> bool"
where
  "rechecks_pass db dbNameHash_arg dbKey_arg reopenAtSeqNo =
     (\<not> (openingDatabase dbNameHash_arg dbKey_arg reopenAtSeqNo \<and> lastSeqNo db \<noteq> 0)
      \<and> \<not> (reopeningDatabase reopenAtSeqNo \<and> Some (lastSeqNo db) \<noteq> reopenAtSeqNo)
      \<and> \<not> (\<not> openingDatabase dbNameHash_arg dbKey_arg reopenAtSeqNo \<and> \<not> init db))"

text \<open>
  The outcome of a call of \<open>push\<close>: the error with which the promise is rejected, if
  any; what was written to the socket; the connection and the store afterwards.
\<close>

record push_result =
  thrown :: "ddb_error option"
  sent :: "event list"
  connection_after :: connection
  ddb_after :: ddb

text \<open>
  \<open>Connection.push(databaseId, dbNameHash, dbKey, reopenAtSeqNo)\<close>. The \<open>catch\<close> block
  logs and throws \<open>new Error(e)\<close>. In the branch for an empty buffer, a truthy
  \<open>payload.bundle\<close> has been assigned together with \<open>payload.bundleSeqNo\<close>.
\<close>

definition push ::
  "env \<Rightarrow> ddb \<Rightarrow> connection \<Rightarrow> string \<Rightarrow> string option \<Rightarrow> string option \<Rightarrow> int option
     \<Rightarrow> push_result"
where
  "push e d c databaseId dbNameHash_arg dbKey_arg reopenAtSeqNo =
     (case databases c databaseId of
        None \<Rightarrow> \<lparr> thrown = None, sent = [], connection_after = c, ddb_after = d \<rparr>
      | Some db \<Rightarrow>
          (let pl = push_payload e db databaseId dbNameHash_arg dbKey_arg reopenAtSeqNo
           in case scan (now e) d db databaseId of
                Inl (err, d') \<Rightarrow>
                  \<lparr> thrown = Some err, sent = [], connection_after = c, ddb_after = d' \<rparr>
              | Inr st \<Rightarrow>
                  if openingDatabase dbNameHash_arg dbKey_arg reopenAtSeqNo \<and> lastSeqNo db \<noteq> 0
                  then \<lparr> thrown = None, sent = [], connection_after = c, ddb_after = store st \<rparr>
                  else if reopeningDatabase reopenAtSeqNo \<and> Some (lastSeqNo db) \<noteq> reopenAtSeqNo
                  then \<lparr> thrown = None, sent = [], connection_after = c, ddb_after = store st \<rparr>
                  else if \<not> openingDatabase dbNameHash_arg dbKey_arg reopenAtSeqNo \<and> \<not> init db
                  then \<lparr> thrown = None, sent = [], connection_after = c, ddb_after = store st \<rparr>
                  else if ddbTransactionLog st = []
                  then
                    (if openingDatabase dbNameHash_arg dbKey_arg reopenAtSeqNo
                        \<or> reopeningDatabase reopenAtSeqNo
                     then
                       \<lparr> thrown = None,
                         sent = [Send (socket c) (ApplyTransactions pl False)],
                         connection_after =
                           c\<lparr>databases := (databases c)(databaseId \<mapsto>
                               (if truthy (payload_bundle pl)
                                then (case payload_bundleSeqNo pl of
                                        Some b \<Rightarrow> db\<lparr>lastSeqNo := b\<rparr>
                                      | None \<Rightarrow> db)
                                else db)\<lparr>init := True\<rparr>)\<rparr>,
                         ddb_after = store st \<rparr>
                     else \<lparr> thrown = None, sent = [], connection_after = c,
                            ddb_after = store st \<rparr>)
                  else
                    (let r = sendPayload (estimateSizeOfDdbItem e) (socket c) pl
                               (ddbTransactionLog st) db
                     in \<lparr> thrown = None, sent = fst r,
                          connection_after = c\<lparr>databases := (databases c)(databaseId \<mapsto> snd r)\<rparr>,
                          ddb_after = store st \<rparr>)))"

text \<open>
  \<open>push\<close> is an \<open>async\<close> function. It runs without interruption from the call to its
  first \<open>await\<close> (the fetch of the bundle, or else the first query); there other operations
  on the same connection may run, and what follows reads the DatabaseState again, as it
  then is (the guards of the buffer and everything after the scan). The definition of
  \<open>push\<close> above is the call that nothing interrupts. Below, the same call in two parts.

  The first part decides the bundle preface from the DatabaseState at the call and leaves
  the payload and the local \<open>lastSeqNo\<close> with which the scan will start.
\<close>

record pending_push =
  pending_payload :: payload
  pending_lastSeqNo :: int

definition push_begin ::
  "env \<Rightarrow> connection \<Rightarrow> string \<Rightarrow> string option \<Rightarrow> string option \<Rightarrow> int option
     \<Rightarrow> pending_push option"
where
  "push_begin e c databaseId dbNameHash_arg dbKey_arg reopenAtSeqNo =
     (case databases c databaseId of
        None \<Rightarrow> None
      | Some db \<Rightarrow>
          Some \<lparr> pending_payload =
                   push_payload e db databaseId dbNameHash_arg dbKey_arg reopenAtSeqNo,
                 pending_lastSeqNo = scan_from db \<rparr>)"

text \<open>The scan, started from a given local \<open>lastSeqNo\<close>.\<close>

definition scan_resumed ::
  "int \<Rightarrow> ddb \<Rightarrow> int \<Rightarrow> database \<Rightarrow> string \<Rightarrow> ddb_error \<times> ddb + scan_state"
where
  "scan_resumed t d from_seqNo db databaseId =
     scan_pages t databaseId db
       \<lparr> param_dbId = databaseId, param_seqNo = from_seqNo, ExclusiveStartKey = None \<rparr>
       \<lparr> gapInSeqNo = False, scan_lastSeqNo = from_seqNo, ddbTransactionLog = [],
         store = d \<rparr>"

text \<open>
  The second part: the scan and everything after it, on the connection as it is when
  the call goes on. The pages are taken in one go: operations in between them, which the
  source admits as well, are left out.
\<close>

definition push_resume ::
  "env \<Rightarrow> ddb \<Rightarrow> connection \<Rightarrow> string \<Rightarrow> string option \<Rightarrow> string option \<Rightarrow> int option
     \<Rightarrow> pending_push \<Rightarrow> push_result"
where
  "push_resume e d c databaseId dbNameHash_arg dbKey_arg reopenAtSeqNo p =
     (case databases c databaseId of
        None \<Rightarrow> \<lparr> thrown = None, sent = [], connection_after = c, ddb_after = d \<rparr>
      | Some db \<Rightarrow>
          (let pl = pending_payload p
           in case scan_resumed (now e) d (pending_lastSeqNo p) db databaseId of
                Inl (err, d') \<Rightarrow>
                  \<lparr> thrown = Some err, sent = [], connection_after = c, ddb_after = d' \<rparr>
              | Inr st \<Rightarrow>
                  if openingDatabase dbNameHash_arg dbKey_arg reopenAtSeqNo \<and> lastSeqNo db \<noteq> 0
                  then \<lparr> thrown = None, sent = [], connection_after = c, ddb_after = store st \<rparr>
                  else if reopeningDatabase reopenAtSeqNo \<and> Some (lastSeqNo db) \<noteq> reopenAtSeqNo
                  then \<lparr> thrown = None, sent = [], connection_after = c, ddb_after = store st \<rparr>
                  else if \<not> openingDatabase dbNameHash_arg dbKey_arg reopenAtSeqNo \<and> \<not> init db
                  then \<lparr> thrown = None, sent = [], connection_after = c, ddb_after = store st \<rparr>
                  else if ddbTransactionLog st = []
                  then
                    (if openingDatabase dbNameHash_arg dbKey_arg reopenAtSeqNo
                        \<or> reopeningDatabase reopenAtSeqNo
                     then
                       \<lparr> thrown = None,
                         sent = [Send (socket c) (ApplyTransactions pl False)],
                         connection_after =
                           c\<lparr>databases := (databases c)(databaseId \<mapsto>
                               (if truthy (payload_bundle pl)
                                then (case payload_bundleSeqNo pl of
                                        Some b \<Rightarrow> db\<lparr>lastSeqNo := b\<rparr>
                                      | None \<Rightarrow> db)
                                else db)\<lparr>init := True\<rparr>)\<rparr>,
                         ddb_after = store st \<rparr>
                     else \<lparr> thrown = None, sent = [], connection_after = c,
                            ddb_after = store st \<rparr>)
                  else
                    (let r = sendPayload (estimateSizeOfDdbItem e) (socket c) pl
                               (ddbTransactionLog st) db
                     in \<lparr> thrown = None, sent = fst r,
                          connection_after = c\<lparr>databases := (databases c)(databaseId \<mapsto> snd r)\<rparr>,
                          ddb_after = store st \<rparr>)))"

text \<open>
  The body of the loop of \<open>Connections.push(transaction, userId)\<close> for one connection:
  the fast path hands the single transaction to \<open>sendPayload\<close>, anything else is a
  \<open>push\<close> without header arguments.
\<close>

definition fan_out :: "env \<Rightarrow> ddb \<Rightarrow> connection \<Rightarrow> txn \<Rightarrow> push_result" where
  "fan_out e d conn transaction =
     (case databases conn (database_id transaction) of
        Some db \<Rightarrow>
          if sequence_no transaction = lastSeqNo db + 1
          then
            (let pl = \<lparr> route = ''ApplyTransactions'', dbId = database_id transaction,
                         dbNameHash = None, dbKey = None, payload_bundleSeqNo = None,
                         payload_bundle = None, transactionLog = None \<rparr>;
                 r = sendPayload (estimateSizeOfDdbItem e) (socket conn) pl [transaction] db
             in \<lparr> thrown = None, sent = fst r,
                  connection_after =
                    conn\<lparr>databases := (databases conn)(database_id transaction \<mapsto> snd r)\<rparr>,
                  ddb_after = d \<rparr>)
          else push e d conn (database_id transaction) None None None
      | None \<Rightarrow> push e d conn (database_id transaction) None None None)"

definition sample_env :: "int \<Rightarrow> env" where
  "sample_env t = \<lparr> estimateSizeOfDdbItem = (\<lambda>_. 100), getBundle = (\<lambda>_ _. Some ''blob''), now = t \<rparr>"

definition sample_ddb :: "txn list \<Rightarrow> nat \<Rightarrow> ddb" where
  "sample_ddb items n = \<lparr> table = items, replica = items, page_limit = n \<rparr>"

text \<open>
  A connection with one opened database, and a store whose replica has not yet seen the
  item at sequence number 3.
\<close>

definition sample_connection :: "database \<Rightarrow> connection" where
  "sample_connection db = (new_Connection ''U'' 7 ''C'' ''id'')\<lparr>databases := [''D'' \<mapsto> db]\<rparr>"

definition stale_ddb :: ddb where
  "stale_ddb =
     \<lparr> table = [sample_txn 1 0, sample_txn 3 0, sample_txn 5 0],
       replica = [sample_txn 1 0, sample_txn 5 0],
       page_limit = 5 \<rparr>"

text \<open>
  A connection on which database \<open>D\<close>, with a bundle at 5, has just been opened for the
  first time, and a store holding the transactions 6 and 7.
\<close>

definition opened_connection :: connection where
  "opened_connection = openDatabase (new_Connection ''U'' 7 ''C'' ''id'') ''D'' (Some 5) None"

definition opened_store :: ddb where
  "opened_store = sample_ddb [sample_txn 6 0, sample_txn 7 0] 5"

lemmas scan_eval =
  scan_def scan_pages.simps query_def matching_def selected_def scan_from_def
  bundle_preface_def rollback_def put_def occupied_def rolledBackItem_def
  sample_txn_def sample_ddb_def SECONDS_BEFORE_ROLLBACK_GAP_TRIGGERED_def

lemmas push_eval =
  push_def push_payload_def openingDatabase_def reopeningDatabase_def
  sample_env_def sample_connection_def new_Connection_def openDatabase_def
  sendPayload_def project_def TRANSACTION_SIZE_BUNDLE_TRIGGER_def Let_def


section \<open>Properties of push\<close>

lemma scan_items_buffer:
  assumes "scan_items t databaseId db items st = Inr st'"
    and "\<forall>x \<in> set (ddbTransactionLog st). sequence_no x > lastSeqNo db"
  shows "\<forall>x \<in> set (ddbTransactionLog st'). sequence_no x > lastSeqNo db"
  using assms
proof (induction items arbitrary: st)
  case Nil
  then show ?case by simp
next
  case (Cons item items)
  show ?case
  proof (cases "gapInSeqNo st")
    case True
    with Cons.prems show ?thesis by simp
  next
    case ng: False
    show ?thesis
    proof (cases "sequence_no item > scan_lastSeqNo st + 1
              \<and> t - creation_date item > SECONDS_BEFORE_ROLLBACK_GAP_TRIGGERED")
      case True
      obtain d' res where r:
        "rollback t (store st) (scan_lastSeqNo st) (sequence_no item) databaseId = (d', res)"
        by (cases "rollback t (store st) (scan_lastSeqNo st) (sequence_no item) databaseId")
      from Cons.prems(1) ng True r obtain rolled where res: "res = Inr rolled"
        by (cases res) auto
      define st1 where "st1 =
               \<lparr> gapInSeqNo = True,
                 scan_lastSeqNo = sequence_no item,
                 ddbTransactionLog =
                   ddbTransactionLog st
                   @ filter (\<lambda>t. sequence_no t > lastSeqNo db) rolled
                   @ (if sequence_no item > lastSeqNo db then [item] else []),
                 store = d' \<rparr>"
      from Cons.prems(1) ng True r res have "scan_items t databaseId db items st1 = Inr st'"
        by (simp add: st1_def)
      moreover have "\<forall>x \<in> set (ddbTransactionLog st1). sequence_no x > lastSeqNo db"
        using Cons.prems(2) by (auto simp: st1_def)
      ultimately show ?thesis
        by (rule Cons.IH)
    next
      case False
      show ?thesis
      proof (cases "sequence_no item > scan_lastSeqNo st + 1")
        case True
        with Cons.prems(1) ng False
        have "scan_items t databaseId db items (st\<lparr>gapInSeqNo := True\<rparr>) = Inr st'"
          by auto
        moreover have "\<forall>x \<in> set (ddbTransactionLog (st\<lparr>gapInSeqNo := True\<rparr>)).
            sequence_no x > lastSeqNo db"
          using Cons.prems(2) by simp
        ultimately show ?thesis
          by (rule Cons.IH)
      next
        case nogap: False
        define st2 where "st2 = st\<lparr> gapInSeqNo := False,
              scan_lastSeqNo := sequence_no item,
              ddbTransactionLog :=
                ddbTransactionLog st
                @ (if sequence_no item > lastSeqNo db then [item] else []) \<rparr>"
        from Cons.prems(1) ng nogap have "scan_items t databaseId db items st2 = Inr st'"
          by (simp add: st2_def)
        moreover have "\<forall>x \<in> set (ddbTransactionLog st2). sequence_no x > lastSeqNo db"
          using Cons.prems(2) by (auto simp: st2_def)
        ultimately show ?thesis
          by (rule Cons.IH)
      qed
    qed
  qed
qed

lemma scan_pages_buffer:
  "scan_pages t databaseId db params st = Inr st' \<Longrightarrow>
   \<forall>x \<in> set (ddbTransactionLog st). sequence_no x > lastSeqNo db \<Longrightarrow>
   \<forall>x \<in> set (ddbTransactionLog st'). sequence_no x > lastSeqNo db"
proof (induction t databaseId db params st rule: scan_pages.induct)
  case (1 t databaseId db params st)
  from "1.prems"(1) obtain st1 where
    s1: "scan_items t databaseId db (Items (query (store st) params)) st = Inr st1"
    by (subst (asm) scan_pages.simps) (auto split: sum.splits)
  from scan_items_buffer [OF s1 "1.prems"(2)]
  have b1: "\<forall>x \<in> set (ddbTransactionLog st1). sequence_no x > lastSeqNo db" .
  show ?case
  proof (cases "LastEvaluatedKey (query (store st) params) \<noteq> None \<and> \<not> gapInSeqNo st1")
    case True
    with "1.prems"(1) s1 have "scan_pages t databaseId db
        (params\<lparr>ExclusiveStartKey := LastEvaluatedKey (query (store st) params)\<rparr>) st1 = Inr st'"
      by (subst (asm) scan_pages.simps) auto
    from "1.IH" [OF s1 True this b1] show ?thesis .
  next
    case False
    with "1.prems"(1) s1 have "st' = st1"
      by (subst (asm) scan_pages.simps) auto
    with b1 show ?thesis by simp
  qed
qed

lemma scan_buffer:
  "scan t d db databaseId = Inr st \<Longrightarrow>
     \<forall>x \<in> set (ddbTransactionLog st). sequence_no x > lastSeqNo db"
  unfolding scan_def by (erule scan_pages_buffer) simp

lemma sendPayload_lastSeqNo:
  "lastSeqNo (snd (sendPayload est sock pl buf db)) = lastSeqNo db
   \<or> (surviving buf db \<noteq> []
      \<and> lastSeqNo (snd (sendPayload est sock pl buf db)) = sequence_no (last (surviving buf db)))"
  unfolding sendPayload_trimmed by (auto split: list.splits)

lemma surviving_subset: "set (surviving buf db) \<subseteq> set buf"
  unfolding surviving_def by (rule set_dropWhileD [THEN subsetI])

lemma sendPayload_monotone_above:
  assumes "\<forall>x \<in> set buf. sequence_no x > lastSeqNo db"
  shows "lastSeqNo db \<le> lastSeqNo (snd (sendPayload est sock pl buf db))"
proof -
  from sendPayload_lastSeqNo [of est sock pl buf db] show ?thesis
  proof
    assume "lastSeqNo (snd (sendPayload est sock pl buf db)) = lastSeqNo db"
    then show ?thesis by simp
  next
    assume a: "surviving buf db \<noteq> []
      \<and> lastSeqNo (snd (sendPayload est sock pl buf db)) = sequence_no (last (surviving buf db))"
    then have "last (surviving buf db) \<in> set buf"
      using surviving_subset [of buf db] last_in_set [of "surviving buf db"] by auto
    with assms a show ?thesis by auto
  qed
qed

lemma sorted_last_ge:
  "sorted (map f (x # xs)) \<Longrightarrow> f x \<le> f (last (x # xs))"
  by (induction xs arbitrary: x) (auto split: if_splits)

lemma sorted_dropWhile_map:
  "sorted (map f xs) \<Longrightarrow> sorted (map f (dropWhile P xs))"
  by (induction xs) auto

lemma sendPayload_monotone_sorted:
  assumes "sorted (map sequence_no buf)"
  shows "lastSeqNo db \<le> lastSeqNo (snd (sendPayload est sock pl buf db))"
proof -
  from sendPayload_lastSeqNo [of est sock pl buf db] show ?thesis
  proof
    assume "lastSeqNo (snd (sendPayload est sock pl buf db)) = lastSeqNo db"
    then show ?thesis by simp
  next
    assume a: "surviving buf db \<noteq> []
      \<and> lastSeqNo (snd (sendPayload est sock pl buf db)) = sequence_no (last (surviving buf db))"
    then obtain x xs where s: "surviving buf db = x # xs"
      by (cases "surviving buf db") auto
    have "sorted (map sequence_no (x # xs))"
      using assms sorted_dropWhile_map [of sequence_no buf] s unfolding surviving_def by metis
    then have "sequence_no x \<le> sequence_no (last (x # xs))"
      by (rule sorted_last_ge)
    moreover have "sequence_no x > lastSeqNo db"
      using s hd_dropWhile [of "\<lambda>t. \<not> sequence_no t > lastSeqNo db" buf]
      unfolding surviving_def by auto
    ultimately show ?thesis
      using a s by simp
  qed
qed

lemma push_monotone:
  assumes "databases c x = Some db"
  shows "\<exists>db'. databases (connection_after (push e d c databaseId h k ro)) x = Some db'
           \<and> lastSeqNo db \<le> lastSeqNo db'"
proof (cases "x = databaseId")
  case False
  then have "databases (connection_after (push e d c databaseId h k ro)) x = databases c x"
    by (auto simp: push_def Let_def split: option.splits sum.splits prod.splits)
  with assms show ?thesis by simp
next
  case True
  show ?thesis
  proof (cases "scan (now e) d db databaseId")
    case (Inl a)
    with assms True show ?thesis
      by (auto simp: push_def Let_def split: prod.splits)
  next
    case (Inr st)
    from scan_buffer [OF Inr]
    have "lastSeqNo db \<le> lastSeqNo (snd (sendPayload (estimateSizeOfDdbItem e) (socket c)
             (push_payload e db databaseId h k ro) (ddbTransactionLog st) db))"
      by (rule sendPayload_monotone_above)
    moreover have "truthy (payload_bundle (push_payload e db databaseId h k ro)) \<Longrightarrow>
        payload_bundleSeqNo (push_payload e db databaseId h k ro) = Some (bundleSeqNo db)
        \<and> lastSeqNo db \<le> bundleSeqNo db"
      by (auto simp: push_payload_def Let_def bundle_preface_def split: if_splits)
    ultimately show ?thesis
      using assms True Inr
      by (auto simp: push_def Let_def)
  qed
qed

lemma fan_out_monotone:
  assumes "databases c x = Some db"
  shows "\<exists>db'. databases (connection_after (fan_out e d c tx)) x = Some db'
           \<and> lastSeqNo db \<le> lastSeqNo db'"
proof (cases "\<exists>db0. databases c (database_id tx) = Some db0
                 \<and> sequence_no tx = lastSeqNo db0 + 1")
  case False
  then have "fan_out e d c tx = push e d c (database_id tx) None None None"
    by (auto simp: fan_out_def split: option.splits)
  with push_monotone [OF assms] show ?thesis by simp
next
  case True
  then obtain db0 where db0: "databases c (database_id tx) = Some db0"
      "sequence_no tx = lastSeqNo db0 + 1" by blast
  have "lastSeqNo db0 \<le> lastSeqNo (snd (sendPayload (estimateSizeOfDdbItem e) (socket c)
      \<lparr> route = ''ApplyTransactions'', dbId = database_id tx,
                         dbNameHash = None, dbKey = None, payload_bundleSeqNo = None,
                         payload_bundle = None, transactionLog = None \<rparr> [tx] db0))"
    by (rule sendPayload_monotone_sorted) simp
  with db0 assms show ?thesis
    by (auto simp: fan_out_def Let_def)
qed

text \<open>
  The three lemmas above are about operations that nothing interrupts: such a \<open>push\<close>,
  such a step of the fan-out, and \<open>sendPayload\<close> on a buffer in ascending order never
  move \<open>lastSeqNo\<close> backwards. A call of \<open>push\<close> that nothing interrupts is its two parts
  run one after the other.
\<close>

lemma push_uninterrupted:
  "push e d c databaseId h k ro
     = (case push_begin e c databaseId h k ro of
          None \<Rightarrow> \<lparr> thrown = None, sent = [], connection_after = c, ddb_after = d \<rparr>
        | Some p \<Rightarrow> push_resume e d c databaseId h k ro p)"
  by (simp add: push_def push_begin_def push_resume_def scan_def scan_resumed_def
      split: option.splits)

text \<open>
  C9. Database \<open>D\<close> has a bundle at 5 and the transactions 6 and 7, and has just been
  opened on the connection: \<open>lastSeqNo = 0\<close>. A reopening \<open>push\<close> at 7 starts and attaches
  the bundle, since \<open>lastSeqNo\<close> is 0. While it waits, the opening \<open>push\<close> runs: it sends
  the bundle with 6 and 7 and leaves \<open>lastSeqNo = 7\<close>. The reopening \<open>push\<close> goes on:
  nothing in the store is beyond 7, so its buffer is empty; its checks pass, as
  \<open>lastSeqNo\<close> is the 7 it asked for; it sends its payload and, the payload carrying a
  bundle, assigns the \<open>bundleSeqNo\<close>: \<open>lastSeqNo\<close> goes from 7 back to 5.
\<close>

theorem interleaved_push_decreases_lastSeqNo:
  "databases opened_connection ''D''
     = Some \<lparr> bundleSeqNo = 5, lastSeqNo = 0, transactionLogSize = 0, init = False \<rparr>
   \<and> push_begin (sample_env 20000) opened_connection ''D'' None None (Some 7)
     = Some \<lparr> pending_payload =
                \<lparr> route = ''ApplyTransactions'', dbId = ''D'', dbNameHash = None,
                  dbKey = None, payload_bundleSeqNo = Some 5,
                  payload_bundle = Some ''blob'', transactionLog = Some [] \<rparr>,
              pending_lastSeqNo = 5 \<rparr>
   \<and> databases (connection_after
        (push (sample_env 20000) opened_store opened_connection ''D''
           (Some ''h'') (Some ''k'') None)) ''D''
     = Some \<lparr> bundleSeqNo = 5, lastSeqNo = 7, transactionLogSize = 200, init = True \<rparr>
   \<and> thrown
        (push_resume (sample_env 20000)
           (ddb_after (push (sample_env 20000) opened_store opened_connection ''D''
              (Some ''h'') (Some ''k'') None))
           (connection_after (push (sample_env 20000) opened_store opened_connection ''D''
              (Some ''h'') (Some ''k'') None))
           ''D'' None None (Some 7)
           \<lparr> pending_payload =
                \<lparr> route = ''ApplyTransactions'', dbId = ''D'', dbNameHash = None,
                  dbKey = None, payload_bundleSeqNo = Some 5,
                  payload_bundle = Some ''blob'', transactionLog = Some [] \<rparr>,
              pending_lastSeqNo = 5 \<rparr>)
     = None
   \<and> sent
        (push_resume (sample_env 20000)
           (ddb_after (push (sample_env 20000) opened_store opened_connection ''D''
              (Some ''h'') (Some ''k'') None))
           (connection_after (push (sample_env 20000) opened_store opened_connection ''D''
              (Some ''h'') (Some ''k'') None))
           ''D'' None None (Some 7)
           \<lparr> pending_payload =
                \<lparr> route = ''ApplyTransactions'', dbId = ''D'', dbNameHash = None,
                  dbKey = None, payload_bundleSeqNo = Some 5,
                  payload_bundle = Some ''blob'', transactionLog = Some [] \<rparr>,
              pending_lastSeqNo = 5 \<rparr>)
     = [Send 7 (ApplyTransactions
          \<lparr> route = ''ApplyTransactions'', dbId = ''D'', dbNameHash = None,
            dbKey = None, payload_bundleSeqNo = Some 5,
            payload_bundle = Some ''blob'', transactionLog = Some [] \<rparr> False)]
   \<and> databases (connection_after
        (push_resume (sample_env 20000)
           (ddb_after (push (sample_env 20000) opened_store opened_connection ''D''
              (Some ''h'') (Some ''k'') None))
           (connection_after (push (sample_env 20000) opened_store opened_connection ''D''
              (Some ''h'') (Some ''k'') None))
           ''D'' None None (Some 7)
           \<lparr> pending_payload =
                \<lparr> route = ''ApplyTransactions'', dbId = ''D'', dbNameHash = None,
                  dbKey = None, payload_bundleSeqNo = Some 5,
                  payload_bundle = Some ''blob'', transactionLog = Some [] \<rparr>,
              pending_lastSeqNo = 5 \<rparr>)) ''D''
     = Some \<lparr> bundleSeqNo = 5, lastSeqNo = 5, transactionLogSize = 200, init = True \<rparr>"
proof -
  have b: "push (sample_env 20000) opened_store opened_connection ''D''
             (Some ''h'') (Some ''k'') None
      = \<lparr> thrown = None,
          sent = [Send 7 (ApplyTransactions
                    \<lparr> route = ''ApplyTransactions'', dbId = ''D'', dbNameHash = Some ''h'',
                      dbKey = Some ''k'', payload_bundleSeqNo = Some 5,
                      payload_bundle = Some ''blob'',
                      transactionLog =
                        Some [project (sample_txn 6 0), project (sample_txn 7 0)] \<rparr> False)],
          connection_after =
            (new_Connection ''U'' 7 ''C'' ''id'')\<lparr>databases := [''D'' \<mapsto>
               \<lparr> bundleSeqNo = 5, lastSeqNo = 7, transactionLogSize = 200, init = True \<rparr>]\<rparr>,
          ddb_after = opened_store \<rparr>"
    by (simp add: push_eval scan_eval opened_connection_def opened_store_def)
  show ?thesis
    unfolding b
    by (simp add: push_begin_def push_resume_def scan_resumed_def push_eval scan_eval
        opened_connection_def opened_store_def)
qed

text \<open>
  C4. Let the scan of \<open>push\<close> end with an empty buffer. If the call is an opening or a
  reopening and the three checks after the scan pass, the payload is sent as it stands,
  with an empty \<open>transactionLog\<close> and without \<open>buildBundle\<close>; \<open>lastSeqNo\<close> becomes the
  \<open>bundleSeqNo\<close> when the payload carries a (truthy) bundle and is unchanged otherwise;
  \<open>init\<close> becomes true. If the call is neither, nothing is sent and the connection, its
  database states included, is unchanged.
\<close>

theorem push_empty_buffer:
  assumes "databases c databaseId = Some db"
    and "scan (now e) d db databaseId = Inr st"
    and "ddbTransactionLog st = []"
  shows "((openingDatabase h k ro \<or> reopeningDatabase ro) \<and> rechecks_pass db h k ro \<longrightarrow>
            thrown (push e d c databaseId h k ro) = None
            \<and> sent (push e d c databaseId h k ro)
                = [Send (socket c) (ApplyTransactions (push_payload e db databaseId h k ro) False)]
            \<and> transactionLog (push_payload e db databaseId h k ro) = Some []
            \<and> databases (connection_after (push e d c databaseId h k ro)) databaseId
                = Some (db\<lparr>lastSeqNo :=
                            (if truthy (payload_bundle (push_payload e db databaseId h k ro))
                             then bundleSeqNo db else lastSeqNo db),
                          init := True\<rparr>))
         \<and> (\<not> openingDatabase h k ro \<and> \<not> reopeningDatabase ro \<longrightarrow>
              thrown (push e d c databaseId h k ro) = None
              \<and> sent (push e d c databaseId h k ro) = []
              \<and> connection_after (push e d c databaseId h k ro) = c)"
proof -
  have b: "truthy (payload_bundle (push_payload e db databaseId h k ro)) \<Longrightarrow>
        payload_bundleSeqNo (push_payload e db databaseId h k ro) = Some (bundleSeqNo db)"
    by (auto simp: push_payload_def Let_def split: if_splits)
  have t: "transactionLog (push_payload e db databaseId h k ro) = Some []"
    by (simp add: push_payload_def Let_def)
  show ?thesis
    using assms b t
    by (auto simp: push_def Let_def rechecks_pass_def)
qed

text \<open>Scenario S1: a first open of a database with an empty log.\<close>

theorem push_empty_buffer_witness:
  "databases (openDatabase (new_Connection ''U'' 7 ''C'' ''id'') ''D'' (Some (- 1)) None) ''D''
     = Some \<lparr> bundleSeqNo = - 1, lastSeqNo = 0, transactionLogSize = 0, init = False \<rparr>
   \<and> (\<exists>st. scan 20000 (sample_ddb [] 5)
              \<lparr> bundleSeqNo = - 1, lastSeqNo = 0, transactionLogSize = 0, init = False \<rparr> ''D''
              = Inr st \<and> ddbTransactionLog st = [])
   \<and> openingDatabase (Some ''h'') (Some ''k'') None
   \<and> rechecks_pass \<lparr> bundleSeqNo = - 1, lastSeqNo = 0, transactionLogSize = 0, init = False \<rparr>
        (Some ''h'') (Some ''k'') None
   \<and> sent (push (sample_env 20000) (sample_ddb [] 5)
         (openDatabase (new_Connection ''U'' 7 ''C'' ''id'') ''D'' (Some (- 1)) None)
         ''D'' (Some ''h'') (Some ''k'') None)
       = [Send 7 (ApplyTransactions
           \<lparr> route = ''ApplyTransactions'', dbId = ''D'', dbNameHash = Some ''h'',
             dbKey = Some ''k'', payload_bundleSeqNo = None, payload_bundle = None,
             transactionLog = Some [] \<rparr> False)]
   \<and> databases (connection_after (push (sample_env 20000) (sample_ddb [] 5)
         (openDatabase (new_Connection ''U'' 7 ''C'' ''id'') ''D'' (Some (- 1)) None)
         ''D'' (Some ''h'') (Some ''k'') None)) ''D''
       = Some \<lparr> bundleSeqNo = - 1, lastSeqNo = 0, transactionLogSize = 0, init = True \<rparr>"
proof -
  let ?db = "\<lparr> bundleSeqNo = - 1, lastSeqNo = 0, transactionLogSize = 0, init = False \<rparr>"
  let ?st = "\<lparr> gapInSeqNo = False, scan_lastSeqNo = 0, ddbTransactionLog = [],
               store = sample_ddb [] 5 \<rparr>"
  have a: "databases (openDatabase (new_Connection ''U'' 7 ''C'' ''id'') ''D'' (Some (- 1)) None) ''D''
     = Some ?db"
    by (simp add: openDatabase_def new_Connection_def)
  have b: "scan (now (sample_env 20000)) (sample_ddb [] 5) ?db ''D'' = Inr ?st"
    by (simp add: scan_eval sample_env_def)
  have c: "ddbTransactionLog ?st = []"
    by simp
  have o: "openingDatabase (Some ''h'') (Some ''k'') None"
    by (simp add: openingDatabase_def reopeningDatabase_def)
  have r: "rechecks_pass ?db (Some ''h'') (Some ''k'') None"
    by (simp add: rechecks_pass_def openingDatabase_def reopeningDatabase_def)
  have p: "push_payload (sample_env 20000) ?db ''D'' (Some ''h'') (Some ''k'') None
       = \<lparr> route = ''ApplyTransactions'', dbId = ''D'', dbNameHash = Some ''h'',
             dbKey = Some ''k'', payload_bundleSeqNo = None, payload_bundle = None,
             transactionLog = Some [] \<rparr>"
    by (simp add: push_payload_def Let_def openingDatabase_def reopeningDatabase_def
        bundle_preface_def)
  have s: "socket (openDatabase (new_Connection ''U'' 7 ''C'' ''id'') ''D'' (Some (- 1)) None) = 7"
    by (simp add: openDatabase_def new_Connection_def)
  have b': "scan 20000 (sample_ddb [] 5) ?db ''D'' = Inr ?st"
    using b by (simp add: sample_env_def)
  from push_empty_buffer [OF a b c, of "Some ''h''" "Some ''k''" None] a b' o r
  show ?thesis
    unfolding p s by auto
qed

text \<open>
  C2. The log holds the items 1, 3 and 4; item 3 is older than the rollback threshold.
  The scan writes the sentinel for 2 and then processes item 3, but the flag
  \<open>gapInSeqNo\<close> is still set from the head of the body, so the loop over the items and
  the loop over the pages both end: item 4 is not processed, neither when it is on the
  same page (six items a page) nor when it is on the next one (two items a page, the
  response carrying a \<open>LastEvaluatedKey\<close>). The \<open>push\<close> sends 1, 2 and 3 only.
\<close>

theorem scan_stops_after_rollback:
  "scan 20000 (sample_ddb [sample_txn 1 0, sample_txn 3 0, sample_txn 4 0] 1)
     (sample_database 0 0) ''D''
   = Inr \<lparr> gapInSeqNo = True, scan_lastSeqNo = 3,
       ddbTransactionLog = [sample_txn 1 0, rolledBackItem 20000 ''D'' 2, sample_txn 3 0],
       store = \<lparr> table = [sample_txn 1 0, sample_txn 3 0, sample_txn 4 0,
                           rolledBackItem 20000 ''D'' 2],
                 replica = [sample_txn 1 0, sample_txn 3 0, sample_txn 4 0],
                 page_limit = 1 \<rparr> \<rparr>
   \<and> LastEvaluatedKey (query (sample_ddb [sample_txn 1 0, sample_txn 3 0, sample_txn 4 0] 1)
        \<lparr> param_dbId = ''D'', param_seqNo = 0, ExclusiveStartKey = None \<rparr>) = Some 3
   \<and> scan 20000 (sample_ddb [sample_txn 1 0, sample_txn 3 0, sample_txn 4 0] 5)
     (sample_database 0 0) ''D''
   = Inr \<lparr> gapInSeqNo = True, scan_lastSeqNo = 3,
       ddbTransactionLog = [sample_txn 1 0, rolledBackItem 20000 ''D'' 2, sample_txn 3 0],
       store = \<lparr> table = [sample_txn 1 0, sample_txn 3 0, sample_txn 4 0,
                           rolledBackItem 20000 ''D'' 2],
                 replica = [sample_txn 1 0, sample_txn 3 0, sample_txn 4 0],
                 page_limit = 5 \<rparr> \<rparr>
   \<and> databases (connection_after
         (push (sample_env 20000) (sample_ddb [sample_txn 1 0, sample_txn 3 0, sample_txn 4 0] 1)
            (sample_connection (sample_database 0 0)) ''D'' None None None)) ''D''
       = Some \<lparr> bundleSeqNo = - 1, lastSeqNo = 3, transactionLogSize = 300, init = True \<rparr>"
  by (simp add: scan_eval push_eval sample_database_def)


lemma put_free:
  "\<not> occupied d (database_id item) (sequence_no item) \<Longrightarrow>
     put d item = Inr (d\<lparr>table := table d @ [item]\<rparr>)"
  by (simp add: put_def)

lemma occupied_after_put:
  "occupied (d\<lparr>table := table d @ [rolledBackItem t databaseId x]\<rparr>) databaseId n
     \<longleftrightarrow> occupied d databaseId n \<or> n = x"
  by (auto simp: occupied_def rolledBackItem_def list_ex_iff)

lemma rollback_loop_fails:
  "distinct xs \<Longrightarrow> \<forall>n \<in> set xs. \<not> occupied d databaseId n \<Longrightarrow> occupied d databaseId k \<Longrightarrow>
     rollback_loop t databaseId d (xs @ k # ys) acc
       = (d\<lparr>table := table d @ map (rolledBackItem t databaseId) xs\<rparr>,
          Inl ConditionalCheckFailedException)"
proof (induction xs arbitrary: d acc)
  case Nil
  then show ?case
    by (simp add: put_def rolledBackItem_def)
next
  case (Cons x xs)
  let ?d1 = "d\<lparr>table := table d @ [rolledBackItem t databaseId x]\<rparr>"
  have p: "put d (rolledBackItem t databaseId x) = Inr ?d1"
    using Cons.prems(2) by (intro put_free) (simp add: rolledBackItem_def)
  have "distinct xs" "\<forall>n \<in> set xs. \<not> occupied ?d1 databaseId n" "occupied ?d1 databaseId k"
    using Cons.prems by (auto simp: occupied_after_put)
  from Cons.IH [OF this] p show ?case
    by simp
qed

text \<open>
  C10, as far as it holds. \<open>rollback\<close> puts the sentinels in increasing order and stops
  at the first put whose condition fails: when slot \<open>k\<close> of the window is occupied and
  the slots before it are free, the sentinels of the slots before \<open>k\<close> are in the table
  afterwards, no list is returned and the error is passed on. The scan passes it on
  as well, and \<open>push\<close> catches it and throws it again: the call ends with the error,
  nothing is written to the socket and the connection, its database states included, is
  unchanged.
\<close>

theorem rollback_not_atomic:
  "(lo < k \<and> k < hi \<and> occupied d databaseId k
      \<and> (\<forall>n. lo < n \<and> n < k \<longrightarrow> \<not> occupied d databaseId n) \<longrightarrow>
      rollback t d lo hi databaseId
        = (d\<lparr>table := table d @ map (rolledBackItem t databaseId) [lo + 1 .. k - 1]\<rparr>,
           Inl ConditionalCheckFailedException))
   \<and> (\<not> gapInSeqNo st \<and> sequence_no item > scan_lastSeqNo st + 1
      \<and> t - creation_date item > SECONDS_BEFORE_ROLLBACK_GAP_TRIGGERED
      \<and> rollback t (store st) (scan_lastSeqNo st) (sequence_no item) databaseId = (d', Inl err) \<longrightarrow>
      scan_items t databaseId db (item # items) st = Inl (err, d'))
   \<and> (databases c databaseId = Some db \<and> scan (now e) d db databaseId = Inl (err, d') \<longrightarrow>
      push e d c databaseId h key ro
        = \<lparr> thrown = Some err, sent = [], connection_after = c, ddb_after = d' \<rparr>)"
proof (intro conjI impI)
  assume a: "lo < k \<and> k < hi \<and> occupied d databaseId k
      \<and> (\<forall>n. lo < n \<and> n < k \<longrightarrow> \<not> occupied d databaseId n)"
  then have "[lo + 1 .. hi - 1] = [lo + 1 .. k - 1] @ k # [k + 1 .. hi - 1]"
    by (intro upto_split3) auto
  moreover have "distinct [lo + 1 .. k - 1]"
    by simp
  moreover have "\<forall>n \<in> set [lo + 1 .. k - 1]. \<not> occupied d databaseId n"
    using a by auto
  ultimately show "rollback t d lo hi databaseId
        = (d\<lparr>table := table d @ map (rolledBackItem t databaseId) [lo + 1 .. k - 1]\<rparr>,
           Inl ConditionalCheckFailedException)"
    unfolding rollback_def using a by (simp add: rollback_loop_fails)
next
  assume "\<not> gapInSeqNo st \<and> sequence_no item > scan_lastSeqNo st + 1
      \<and> t - creation_date item > SECONDS_BEFORE_ROLLBACK_GAP_TRIGGERED
      \<and> rollback t (store st) (scan_lastSeqNo st) (sequence_no item) databaseId = (d', Inl err)"
  then show "scan_items t databaseId db (item # items) st = Inl (err, d')"
    by simp
next
  assume "databases c databaseId = Some db \<and> scan (now e) d db databaseId = Inl (err, d')"
  then show "push e d c databaseId h key ro
        = \<lparr> thrown = Some err, sent = [], connection_after = c, ddb_after = d' \<rparr>"
    by (simp add: push_def Let_def)
qed

text \<open>
  \<open>push\<close> does not return from its \<open>catch\<close> block, it throws. The replica lacks item
  3, so the scan sees a gap from 2 to 4 before the old item 5; the put for 2 succeeds,
  the put for 3 fails, and the call of \<open>push\<close> ends with that error.
\<close>

theorem push_rethrows_counterexample:
  "push (sample_env 20000) stale_ddb (sample_connection (sample_database 0 0)) ''D''
      None None None
     = \<lparr> thrown = Some ConditionalCheckFailedException, sent = [],
         connection_after = sample_connection (sample_database 0 0),
         ddb_after = stale_ddb\<lparr>table := table stale_ddb @ [rolledBackItem 20000 ''D'' 2]\<rparr> \<rparr>"
  by (simp add: push_eval scan_eval stale_ddb_def sample_database_def)

theorem rollback_not_atomic_witness:
  "(1::int) < 3 \<and> (3::int) < 5 \<and> occupied stale_ddb ''D'' 3
   \<and> \<not> occupied stale_ddb ''D'' 2
   \<and> rollback 20000 stale_ddb 1 5 ''D''
       = (stale_ddb\<lparr>table := table stale_ddb @ [rolledBackItem 20000 ''D'' 2]\<rparr>,
          Inl ConditionalCheckFailedException)
   \<and> databases (sample_connection (sample_database 0 0)) ''D'' = Some (sample_database 0 0)
   \<and> scan (now (sample_env 20000)) stale_ddb (sample_database 0 0) ''D''
       = Inl (ConditionalCheckFailedException,
              stale_ddb\<lparr>table := table stale_ddb @ [rolledBackItem 20000 ''D'' 2]\<rparr>)
   \<and> push (sample_env 20000) stale_ddb (sample_connection (sample_database 0 0)) ''D''
        (Some ''h'') None None
       = \<lparr> thrown = Some ConditionalCheckFailedException, sent = [],
           connection_after = sample_connection (sample_database 0 0),
           ddb_after = stale_ddb\<lparr>table := table stale_ddb @ [rolledBackItem 20000 ''D'' 2]\<rparr> \<rparr>"
proof -
  have o: "occupied stale_ddb ''D'' 3" "\<not> occupied stale_ddb ''D'' 2"
    by (simp_all add: occupied_def stale_ddb_def sample_txn_def)
  have "n = 2" if "1 < n \<and> n < 3" for n :: int
    using that by arith
  with o have f: "\<forall>n. (1::int) < n \<and> n < 3 \<longrightarrow> \<not> occupied stale_ddb ''D'' n"
    by blast
  have u: "[(1::int) + 1 .. 3 - 1] = [2]"
    by simp
  have c: "databases (sample_connection (sample_database 0 0)) ''D'' = Some (sample_database 0 0)"
    by (simp add: sample_connection_def)
  have s: "scan (now (sample_env 20000)) stale_ddb (sample_database 0 0) ''D''
       = Inl (ConditionalCheckFailedException,
              stale_ddb\<lparr>table := table stale_ddb @ [rolledBackItem 20000 ''D'' 2]\<rparr>)"
    by (simp add: scan_eval stale_ddb_def sample_database_def sample_env_def)
  from o f c s
    rollback_not_atomic [where lo = 1 and k = 3 and hi = 5 and d = stale_ddb
      and databaseId = "''D''" and t = 20000 and c = "sample_connection (sample_database 0 0)"
      and db = "sample_database 0 0" and e = "sample_env 20000"
      and err = ConditionalCheckFailedException
      and d' = "stale_ddb\<lparr>table := table stale_ddb @ [rolledBackItem 20000 ''D'' 2]\<rparr>"
      and h = "Some ''h''" and key = None and ro = None]
  show ?thesis
    unfolding u by simp
qed

end
